theory Spec2Isabelle
  imports Main "HOL-Library.Word"
begin

section \<open>Strings and entries\<close>

text \<open>
  A string of the program is a sequence of UTF-16 code units, which is what
  \<^verbatim>\<open>length\<close>, \<^verbatim>\<open>trim\<close> and \<^verbatim>\<open>!==\<close> of the source work on.  A literal of the
  source is written \<open>lit ''...''\<close>.
\<close>

type_synonym code_unit = "16 word"
type_synonym js_string = "code_unit list"

definition lit :: "string \<Rightarrow> js_string" where
  "lit s = map of_char s"

text \<open>
  Modelled from the spec: the declaration of \<^verbatim>\<open>QrCodeEntry\<close> in \<^verbatim>\<open>./types\<close> is not among
  the sources.  The specification gives an entry an id, the url, the image payload and
  the creation time; the names of the fields are those of the object literal in
  \<^verbatim>\<open>handleGenerateQrCode\<close> (\<^verbatim>\<open>id\<close>, \<^verbatim>\<open>url\<close>, \<^verbatim>\<open>dataUrl\<close>, \<^verbatim>\<open>createdAt\<close>).
  \<^verbatim>\<open>createdAt\<close> is the value of \<^verbatim>\<open>Date.now()\<close>, an integral number of milliseconds, which a
  number of the program holds exactly; the model takes it from the integers.
\<close>

record QrCodeEntry =
  id_entry :: js_string
  url :: js_string
  dataUrl :: js_string
  createdAt :: int

text \<open>The five \<^verbatim>\<open>useState\<close> cells of \<^verbatim>\<open>App\<close>.\<close>

record app_state =
  urlInput :: js_string
  currentQr :: "QrCodeEntry option"
  history :: "QrCodeEntry list"
  isLoading :: bool
  error :: "js_string option"

definition initial_state :: app_state where
  "initial_state =
     \<lparr>urlInput = [], currentQr = None, history = [], isLoading = False, error = None\<rparr>"

section \<open>Input validation\<close>

text \<open>
  \<^verbatim>\<open>String.prototype.trim\<close> removes leading and trailing white space and line
  terminators (ECMA-262: TAB, VT, FF, SP, NBSP, ZWNBSP, the category Zs, and
  LF, CR, LS, PS); all of them are single code units.
\<close>

definition is_white :: "code_unit \<Rightarrow> bool" where
  "is_white c =
     (c \<in> set [0x09, 0x0A, 0x0B, 0x0C, 0x0D, 0x20, 0xA0, 0x1680, 0x2028, 0x2029,
               0x202F, 0x205F, 0x3000, 0xFEFF]
      \<or> (0x2000 \<le> c \<and> c \<le> 0x200A))"

definition trim :: "js_string \<Rightarrow> js_string" where
  "trim s = rev (dropWhile is_white (rev (dropWhile is_white s)))"

text \<open>
  \<^verbatim>\<open>new URL(urlString)\<close> is the host's URL parser: it returns a URL object or throws.
  It is a parameter \<open>URL_new\<close> of the model, \<open>None\<close> standing for the exception.
  \<^verbatim>\<open>isValidUrl\<close> turns the exception into \<^verbatim>\<open>false\<close>.
\<close>

definition isValidUrl :: "(js_string \<Rightarrow> 'u option) \<Rightarrow> js_string \<Rightarrow> bool" where
  "isValidUrl URL_new urlString =
     (case URL_new urlString of Some u \<Rightarrow> True | None \<Rightarrow> False)"

text \<open>
  The guard of \<^verbatim>\<open>handleGenerateQrCode\<close> is
  \<^verbatim>\<open>!urlInput.trim() || !isValidUrl(urlInput)\<close>; a string is falsy exactly when it
  is empty.  \<open>input_rejected\<close> is that guard.
\<close>

definition input_rejected :: "(js_string \<Rightarrow> 'u option) \<Rightarrow> js_string \<Rightarrow> bool" where
  "input_rejected URL_new s = (trim s = [] \<or> \<not> isValidUrl URL_new s)"

section \<open>The event handlers\<close>

definition msg_invalid_url :: js_string where
  "msg_invalid_url = lit ''Please enter a valid URL (e.g., https://example.com).''"

definition msg_generate_failed :: js_string where
  "msg_generate_failed = lit ''Failed to generate QR code. Please try again.''"

text \<open>
  \<^verbatim>\<open>handleGenerateQrCode\<close> is an \<^verbatim>\<open>async\<close> function.  Its first part runs when the
  button is clicked: it either rejects the input, or sets the loading flag, clears the
  error and starts the encoder on the \<^verbatim>\<open>urlInput\<close> its closure holds.
\<close>

datatype generate_start = Rejected app_state | Awaiting js_string app_state

definition handleGenerateQrCode_start ::
  "(js_string \<Rightarrow> 'u option) \<Rightarrow> app_state \<Rightarrow> generate_start" where
  "handleGenerateQrCode_start URL_new st =
     (if input_rejected URL_new (urlInput st)
      then Rejected (st\<lparr>error := Some msg_invalid_url\<rparr>)
      else Awaiting (urlInput st) (st\<lparr>isLoading := True, error := None\<rparr>))"

text \<open>
  The update function given to \<^verbatim>\<open>setHistory\<close>:
  \<^verbatim>\<open>[newEntry, ...prevHistory.filter(item => item.url !== newEntry.url).slice(0, 19)]\<close>.
\<close>

definition insert_entry :: "QrCodeEntry \<Rightarrow> QrCodeEntry list \<Rightarrow> QrCodeEntry list" where
  "insert_entry newEntry prevHistory =
     newEntry # take 19 (filter (\<lambda>item. url item \<noteq> url newEntry) prevHistory)"

text \<open>
  The second part runs when the encoder's promise settles, on the state of that moment.
  \<open>outcome\<close> is the data URL, or \<open>None\<close> when \<^verbatim>\<open>QRCode.toDataURL\<close> rejected;
  \<open>isoString\<close> is \<^verbatim>\<open>new Date().toISOString()\<close> and \<open>now\<close> is \<^verbatim>\<open>Date.now()\<close>.  The
  \<^verbatim>\<open>finally\<close> block clears the loading flag on both paths.
\<close>

definition handleGenerateQrCode_resume ::
  "js_string \<Rightarrow> js_string option \<Rightarrow> js_string \<Rightarrow> int \<Rightarrow> app_state \<Rightarrow> app_state" where
  "handleGenerateQrCode_resume captured outcome isoString now st =
     (case outcome of
        Some data \<Rightarrow>
          (let newEntry = \<lparr>id_entry = isoString, url = captured, dataUrl = data, createdAt = now\<rparr>
           in st\<lparr>currentQr := Some newEntry,
                 history := insert_entry newEntry (history st),
                 urlInput := [],
                 isLoading := False\<rparr>)
      | None \<Rightarrow> st\<lparr>error := Some msg_generate_failed, isLoading := False\<rparr>)"

text \<open>
  The whole call with no other event in between: \<open>toDataURL\<close> is the encoder at the
  fixed options of the source, as a function of the text.
\<close>

definition handleGenerateQrCode ::
  "(js_string \<Rightarrow> 'u option) \<Rightarrow> (js_string \<Rightarrow> js_string option) \<Rightarrow> js_string \<Rightarrow> int
     \<Rightarrow> app_state \<Rightarrow> app_state" where
  "handleGenerateQrCode URL_new toDataURL isoString now st =
     (case handleGenerateQrCode_start URL_new st of
        Rejected st' \<Rightarrow> st'
      | Awaiting captured st' \<Rightarrow>
          handleGenerateQrCode_resume captured (toDataURL captured) isoString now st')"

definition handleSelectHistoryItem :: "QrCodeEntry \<Rightarrow> app_state \<Rightarrow> app_state" where
  "handleSelectHistoryItem item st = st\<lparr>currentQr := Some item\<rparr>"

text \<open>\<open>confirmed\<close> is the answer of \<^verbatim>\<open>window.confirm\<close>.\<close>

definition handleClearHistory :: "bool \<Rightarrow> app_state \<Rightarrow> app_state" where
  "handleClearHistory confirmed st =
     (if confirmed then st\<lparr>history := [], currentQr := None\<rparr> else st)"

section \<open>The stored form of the history\<close>

text \<open>
  The history is kept in \<^verbatim>\<open>localStorage\<close> as \<^verbatim>\<open>JSON.stringify(history)\<close> and read
  back with \<^verbatim>\<open>JSON.parse\<close>.  Both are functions of the host (ECMA-262, 25.5); they are
  modelled here for the values the program hands them.  A number is kept as its
  literal: the program stores integers only.
\<close>

datatype json =
  JNull | JBool bool | JNumber js_string | JString js_string
  | JArray "json list" | JObject "(js_string \<times> json) list"

subsection \<open>\<^verbatim>\<open>JSON.stringify\<close>\<close>

definition hex_char :: "nat \<Rightarrow> code_unit" where
  "hex_char k = (if k < 10 then of_nat (48 + k) else of_nat (87 + k))"

text \<open>\<^verbatim>\<open>\uXXXX\<close> with lower-case hexadecimal digits.\<close>

definition unicode_escape :: "code_unit \<Rightarrow> js_string" where
  "unicode_escape c =
     [0x5C, 0x75, hex_char (unat c div 4096 mod 16), hex_char (unat c div 256 mod 16),
      hex_char (unat c div 16 mod 16), hex_char (unat c mod 16)]"

definition is_high_surrogate :: "code_unit \<Rightarrow> bool" where
  "is_high_surrogate c = (0xD800 \<le> c \<and> c \<le> 0xDBFF)"

definition is_low_surrogate :: "code_unit \<Rightarrow> bool" where
  "is_low_surrogate c = (0xDC00 \<le> c \<and> c \<le> 0xDFFF)"

text \<open>
  QuoteJSONString without the enclosing quotes: the two-character escapes for
  backspace, tab, line feed, form feed, carriage return, the quote and the
  backslash; \<^verbatim>\<open>\uXXXX\<close> for the other control characters and for a surrogate that
  has no partner; every other code unit as it is.
\<close>

fun quote_units :: "js_string \<Rightarrow> js_string" where
  "quote_units [] = []"
| "quote_units (c # cs) =
     (if c = 0x08 then 0x5C # 0x62 # quote_units cs
      else if c = 0x09 then 0x5C # 0x74 # quote_units cs
      else if c = 0x0A then 0x5C # 0x6E # quote_units cs
      else if c = 0x0C then 0x5C # 0x66 # quote_units cs
      else if c = 0x0D then 0x5C # 0x72 # quote_units cs
      else if c = 0x22 then 0x5C # 0x22 # quote_units cs
      else if c = 0x5C then 0x5C # 0x5C # quote_units cs
      else if c < 0x20 then unicode_escape c @ quote_units cs
      else if is_high_surrogate c then
        (case cs of
           [] \<Rightarrow> unicode_escape c
         | d # ds \<Rightarrow>
             if is_low_surrogate d then c # d # quote_units ds
             else unicode_escape c @ quote_units cs)
      else if is_low_surrogate c then unicode_escape c @ quote_units cs
      else c # quote_units cs)"

definition quote_json :: "js_string \<Rightarrow> js_string" where
  "quote_json s = 0x22 # quote_units s @ [0x22]"

text \<open>Number::toString of an integer: its decimal digits, after a minus sign if negative.\<close>

fun digits_of :: "nat \<Rightarrow> js_string" where
  "digits_of n =
     (if n < 10 then [of_nat (48 + n)] else digits_of (n div 10) @ [of_nat (48 + n mod 10)])"

declare digits_of.simps [simp del]

definition show_int :: "int \<Rightarrow> js_string" where
  "show_int i = (if i < 0 then 0x2D # digits_of (nat (- i)) else digits_of (nat i))"

fun join_commas :: "js_string list \<Rightarrow> js_string" where
  "join_commas [] = []"
| "join_commas [x] = x"
| "join_commas (x # y # ys) = x @ 0x2C # join_commas (y # ys)"

text \<open>SerializeJSONProperty without indentation.\<close>

fun serialize :: "json \<Rightarrow> js_string" where
  "serialize JNull = lit ''null''"
| "serialize (JBool b) = (if b then lit ''true'' else lit ''false'')"
| "serialize (JNumber n) = n"
| "serialize (JString s) = quote_json s"
| "serialize (JArray vs) = 0x5B # join_commas (map serialize vs) @ [0x5D]"
| "serialize (JObject ms) =
     0x7B # join_commas (map (\<lambda>m. quote_json (fst m) @ 0x3A # serialize (snd m)) ms) @ [0x7D]"

text \<open>
  An entry as a value: its properties in the order in which the object literal of
  \<^verbatim>\<open>handleGenerateQrCode\<close> creates them.
\<close>

definition entry_keys :: "js_string list" where
  "entry_keys = [lit ''id'', lit ''url'', lit ''dataUrl'', lit ''createdAt'']"

definition json_of_entry :: "QrCodeEntry \<Rightarrow> json" where
  "json_of_entry e =
     JObject (zip entry_keys
       [JString (id_entry e), JString (url e), JString (dataUrl e),
        JNumber (show_int (createdAt e))])"

definition JSON_stringify :: "QrCodeEntry list \<Rightarrow> js_string" where
  "JSON_stringify h = serialize (JArray (map json_of_entry h))"

subsection \<open>\<^verbatim>\<open>JSON.parse\<close>\<close>

definition is_json_ws :: "code_unit \<Rightarrow> bool" where
  "is_json_ws c = (c = 0x09 \<or> c = 0x0A \<or> c = 0x0D \<or> c = 0x20)"

definition skip_ws :: "js_string \<Rightarrow> js_string" where
  "skip_ws s = dropWhile is_json_ws s"

definition is_digit :: "code_unit \<Rightarrow> bool" where
  "is_digit c = (0x30 \<le> c \<and> c \<le> 0x39)"

definition hex_value :: "code_unit \<Rightarrow> nat option" where
  "hex_value c =
     (if 0x30 \<le> c \<and> c \<le> 0x39 then Some (unat c - 48)
      else if 0x61 \<le> c \<and> c \<le> 0x66 then Some (unat c - 87)
      else if 0x41 \<le> c \<and> c \<le> 0x46 then Some (unat c - 55)
      else None)"

definition parse_hex4 :: "js_string \<Rightarrow> code_unit option" where
  "parse_hex4 s =
     (case map hex_value s of
        [Some a, Some b, Some c, Some d] \<Rightarrow> Some (of_nat (((a * 16 + b) * 16 + c) * 16 + d))
      | _ \<Rightarrow> None)"

definition unescape :: "code_unit \<Rightarrow> code_unit option" where
  "unescape e =
     (if e = 0x22 then Some 0x22 else if e = 0x5C then Some 0x5C
      else if e = 0x2F then Some 0x2F else if e = 0x62 then Some 0x08
      else if e = 0x66 then Some 0x0C else if e = 0x6E then Some 0x0A
      else if e = 0x72 then Some 0x0D else if e = 0x74 then Some 0x09
      else None)"

definition cons_result :: "'a \<Rightarrow> ('a list \<times> js_string) option \<Rightarrow> ('a list \<times> js_string) option" where
  "cons_result x r = (case r of None \<Rightarrow> None | Some (xs, rest) \<Rightarrow> Some (x # xs, rest))"

text \<open>
  The characters of a string after its opening quote, up to the closing quote; the
  result is the string and the text that follows it.
\<close>

fun parse_chars :: "js_string \<Rightarrow> (js_string \<times> js_string) option" where
  "parse_chars [] = None"
| "parse_chars (c # cs) =
     (if c = 0x22 then Some ([], cs)
      else if c = 0x5C then
        (case cs of
           [] \<Rightarrow> None
         | e # es \<Rightarrow>
             if e = 0x75 then
               (case parse_hex4 (take 4 es) of
                  None \<Rightarrow> None
                | Some u \<Rightarrow> cons_result u (parse_chars (drop 4 es)))
             else
               (case unescape e of
                  None \<Rightarrow> None
                | Some u \<Rightarrow> cons_result u (parse_chars es)))
      else if c < 0x20 then None
      else cons_result c (parse_chars cs))"

text \<open>
  A number literal: \<^verbatim>\<open>-? (0 | [1-9][0-9]*) (. [0-9]+)? ([eE] [+-]? [0-9]+)?\<close>.
\<close>

definition lex_int :: "js_string \<Rightarrow> (js_string \<times> js_string) option" where
  "lex_int s =
     (case s of
        [] \<Rightarrow> None
      | c # cs \<Rightarrow>
          if c = 0x30 then Some ([c], cs)
          else if is_digit c then Some (c # takeWhile is_digit cs, dropWhile is_digit cs)
          else None)"

definition lex_digits :: "js_string \<Rightarrow> (js_string \<times> js_string) option" where
  "lex_digits s =
     (if takeWhile is_digit s = [] then None
      else Some (takeWhile is_digit s, dropWhile is_digit s))"

definition lex_frac :: "js_string \<Rightarrow> (js_string \<times> js_string) option" where
  "lex_frac s =
     (case s of
        [] \<Rightarrow> Some ([], s)
      | c # cs \<Rightarrow>
          if c = 0x2E then
            (case lex_digits cs of None \<Rightarrow> None | Some (ds, rest) \<Rightarrow> Some (c # ds, rest))
          else Some ([], s))"

definition lex_exp :: "js_string \<Rightarrow> (js_string \<times> js_string) option" where
  "lex_exp s =
     (case s of
        [] \<Rightarrow> Some ([], s)
      | c # cs \<Rightarrow>
          if c = 0x65 \<or> c = 0x45 then
            (case cs of
               [] \<Rightarrow> None
             | d # ds \<Rightarrow>
                 if d = 0x2B \<or> d = 0x2D then
                   (case lex_digits ds of
                      None \<Rightarrow> None
                    | Some (xs, rest) \<Rightarrow> Some (c # d # xs, rest))
                 else
                   (case lex_digits cs of
                      None \<Rightarrow> None
                    | Some (xs, rest) \<Rightarrow> Some (c # xs, rest)))
          else Some ([], s))"

definition lex_unsigned :: "js_string \<Rightarrow> (js_string \<times> js_string) option" where
  "lex_unsigned s =
     (case lex_int s of
        None \<Rightarrow> None
      | Some (i, s1) \<Rightarrow>
          (case lex_frac s1 of
             None \<Rightarrow> None
           | Some (f, s2) \<Rightarrow>
               (case lex_exp s2 of
                  None \<Rightarrow> None
                | Some (e, s3) \<Rightarrow> Some (i @ f @ e, s3))))"

definition lex_number :: "js_string \<Rightarrow> (js_string \<times> js_string) option" where
  "lex_number s =
     (case s of
        [] \<Rightarrow> None
      | c # cs \<Rightarrow>
          if c = 0x2D then
            (case lex_unsigned cs of None \<Rightarrow> None | Some (n, rest) \<Rightarrow> Some (c # n, rest))
          else lex_unsigned s)"

definition lex_word :: "js_string \<Rightarrow> json \<Rightarrow> js_string \<Rightarrow> (json \<times> js_string) option" where
  "lex_word w v s = (if take (length w) s = w then Some (v, drop (length w) s) else None)"

definition map_result :: "('a \<Rightarrow> json) \<Rightarrow> ('a \<times> js_string) option \<Rightarrow> (json \<times> js_string) option" where
  "map_result f r = (case r of None \<Rightarrow> None | Some (x, rest) \<Rightarrow> Some (f x, rest))"

text \<open>
  The grammar of values.  The first argument bounds the depth of the calls, and
  \<open>JSON_parse\<close> starts with twice the length of the text: of two calls that follow
  each other one consumes a character.  \<open>parse_elements\<close> reads the elements of an
  array after its bracket up to the closing bracket, \<open>parse_members\<close> the members of
  an object.
\<close>

fun parse_value :: "nat \<Rightarrow> js_string \<Rightarrow> (json \<times> js_string) option"
  and parse_elements :: "nat \<Rightarrow> js_string \<Rightarrow> (json list \<times> js_string) option"
  and parse_members :: "nat \<Rightarrow> js_string \<Rightarrow> ((js_string \<times> json) list \<times> js_string) option"
where
  "parse_value 0 s = None"
| "parse_value (Suc n) s =
     (case skip_ws s of
        [] \<Rightarrow> None
      | c # cs \<Rightarrow>
          if c = 0x7B then
            (case skip_ws cs of
               [] \<Rightarrow> None
             | d # ds \<Rightarrow>
                 if d = 0x7D then Some (JObject [], ds)
                 else map_result JObject (parse_members n cs))
          else if c = 0x5B then
            (case skip_ws cs of
               [] \<Rightarrow> None
             | d # ds \<Rightarrow>
                 if d = 0x5D then Some (JArray [], ds)
                 else map_result JArray (parse_elements n cs))
          else if c = 0x22 then map_result JString (parse_chars cs)
          else if c = 0x74 then lex_word (lit ''true'') (JBool True) (c # cs)
          else if c = 0x66 then lex_word (lit ''false'') (JBool False) (c # cs)
          else if c = 0x6E then lex_word (lit ''null'') JNull (c # cs)
          else map_result JNumber (lex_number (c # cs)))"
| "parse_elements 0 s = None"
| "parse_elements (Suc n) s =
     (case parse_value n s of
        None \<Rightarrow> None
      | Some (v, r) \<Rightarrow>
          (case skip_ws r of
             [] \<Rightarrow> None
           | c # cs \<Rightarrow>
               if c = 0x2C then cons_result v (parse_elements n cs)
               else if c = 0x5D then Some ([v], cs)
               else None))"
| "parse_members 0 s = None"
| "parse_members (Suc n) s =
     (case skip_ws s of
        [] \<Rightarrow> None
      | q # ks \<Rightarrow>
          if q = 0x22 then
            (case parse_chars ks of
               None \<Rightarrow> None
             | Some (k, r) \<Rightarrow>
                 (case skip_ws r of
                    [] \<Rightarrow> None
                  | colon # vs \<Rightarrow>
                      if colon = 0x3A then
                        (case parse_value n vs of
                           None \<Rightarrow> None
                         | Some (v, r') \<Rightarrow>
                             (case skip_ws r' of
                                [] \<Rightarrow> None
                              | c # cs \<Rightarrow>
                                  if c = 0x2C then cons_result (k, v) (parse_members n cs)
                                  else if c = 0x7D then Some ([(k, v)], cs)
                                  else None))
                      else None))
          else None)"

declare parse_value.simps [simp del] parse_elements.simps [simp del]
  parse_members.simps [simp del]

text \<open>
  \<^verbatim>\<open>JSON.parse\<close>: one value, white space around it, nothing else.  \<open>None\<close> is the
  \<^verbatim>\<open>SyntaxError\<close>.
\<close>

definition JSON_parse :: "js_string \<Rightarrow> json option" where
  "JSON_parse s =
     (case parse_value (2 * length s + 2) s of
        None \<Rightarrow> None
      | Some (v, rest) \<Rightarrow> if skip_ws rest = [] then Some v else None)"

subsection \<open>The parsed value as a history\<close>

text \<open>
  The program uses the value of \<^verbatim>\<open>JSON.parse\<close> as a \<^verbatim>\<open>QrCodeEntry[]\<close> without looking at
  it.  \<open>as_history\<close> reads a value as one when it is an array of objects with the
  four properties of an entry, in the order \<^verbatim>\<open>JSON.stringify\<close> writes them and with an
  integer literal for \<^verbatim>\<open>createdAt\<close>; it is \<open>None\<close> on every other value, which the typed
  state of the model cannot hold.
\<close>

definition digit_value :: "code_unit \<Rightarrow> nat" where
  "digit_value c = unat c - 48"

definition nat_of_digits :: "js_string \<Rightarrow> nat option" where
  "nat_of_digits ds =
     (if ds \<noteq> [] \<and> list_all is_digit ds
      then Some (foldl (\<lambda>acc d. 10 * acc + digit_value d) 0 ds)
      else None)"

definition int_of_lexeme :: "js_string \<Rightarrow> int option" where
  "int_of_lexeme n =
     (case n of
        [] \<Rightarrow> None
      | c # cs \<Rightarrow>
          if c = 0x2D then map_option (\<lambda>k. - int k) (nat_of_digits cs)
          else map_option int (nat_of_digits n))"

fun json_string :: "json \<Rightarrow> js_string option" where
  "json_string (JString s) = Some s"
| "json_string v = None"

fun json_integer :: "json \<Rightarrow> int option" where
  "json_integer (JNumber n) = int_of_lexeme n"
| "json_integer v = None"

definition as_entry :: "json \<Rightarrow> QrCodeEntry option" where
  "as_entry v =
     (case v of
        JObject ms \<Rightarrow>
          (if map fst ms = entry_keys then
             (case map snd ms of
                [a, b, c, d] \<Rightarrow>
                  (case (json_string a, json_string b, json_string c, json_integer d) of
                     (Some i, Some u, Some p, Some t) \<Rightarrow>
                       Some \<lparr>id_entry = i, url = u, dataUrl = p, createdAt = t\<rparr>
                   | _ \<Rightarrow> None)
              | _ \<Rightarrow> None)
           else None)
      | _ \<Rightarrow> None)"

fun all_some :: "'a option list \<Rightarrow> 'a list option" where
  "all_some [] = Some []"
| "all_some (None # xs) = None"
| "all_some (Some x # xs) = (case all_some xs of None \<Rightarrow> None | Some ys \<Rightarrow> Some (x # ys))"

definition as_history :: "json \<Rightarrow> QrCodeEntry list option" where
  "as_history v = (case v of JArray vs \<Rightarrow> all_some (map as_entry vs) | _ \<Rightarrow> None)"

section \<open>The URL parser of the host\<close>

text \<open>
  \<^verbatim>\<open>new URL(urlString)\<close> with no base runs the basic URL parser of the URL Standard, a
  function of the host.  The model follows the parser as far as the scheme: leading and
  trailing C0 control characters and spaces are removed, then every tab and newline;
  the scheme start state wants an ASCII letter, the scheme state takes letters, digits,
  \<^verbatim>\<open>+\<close>, \<^verbatim>\<open>-\<close> and \<^verbatim>\<open>.\<close> (in lower case) up to a colon, and any other character, or the end,
  leads to the no scheme state, which fails when there is no base.
\<close>

definition is_c0_or_space :: "code_unit \<Rightarrow> bool" where
  "is_c0_or_space c = (c \<le> 0x20)"

definition is_tab_or_newline :: "code_unit \<Rightarrow> bool" where
  "is_tab_or_newline c = (c = 0x09 \<or> c = 0x0A \<or> c = 0x0D)"

definition url_strip :: "js_string \<Rightarrow> js_string" where
  "url_strip s =
     filter (\<lambda>c. \<not> is_tab_or_newline c)
       (rev (dropWhile is_c0_or_space (rev (dropWhile is_c0_or_space s))))"

definition is_ascii_alpha :: "code_unit \<Rightarrow> bool" where
  "is_ascii_alpha c = ((0x41 \<le> c \<and> c \<le> 0x5A) \<or> (0x61 \<le> c \<and> c \<le> 0x7A))"

definition is_scheme_char :: "code_unit \<Rightarrow> bool" where
  "is_scheme_char c = (is_ascii_alpha c \<or> is_digit c \<or> c = 0x2B \<or> c = 0x2D \<or> c = 0x2E)"

definition ascii_lower :: "code_unit \<Rightarrow> code_unit" where
  "ascii_lower c = (if 0x41 \<le> c \<and> c \<le> 0x5A then c + 0x20 else c)"

text \<open>
  The scheme state, with the buffer and the rest of the input; the result is the scheme
  and what follows its colon.
\<close>

fun scheme_state :: "js_string \<Rightarrow> js_string \<Rightarrow> (js_string \<times> js_string) option" where
  "scheme_state buffer [] = None"
| "scheme_state buffer (c # cs) =
     (if is_scheme_char c then scheme_state (buffer @ [ascii_lower c]) cs
      else if c = 0x3A then Some (buffer, cs)
      else None)"

definition scheme_start_state :: "js_string \<Rightarrow> (js_string \<times> js_string) option" where
  "scheme_start_state input =
     (case input of
        [] \<Rightarrow> None
      | c # cs \<Rightarrow> if is_ascii_alpha c then scheme_state [ascii_lower c] cs else None)"

text \<open>
  After the scheme the parser fails only in the states that parse an authority (the
  authority, host, port and file host states); the path, opaque path, query and fragment
  states accept every input.  The parser enters an authority state for the schemes
  \<^verbatim>\<open>http\<close>, \<^verbatim>\<open>https\<close>, \<^verbatim>\<open>ws\<close>, \<^verbatim>\<open>wss\<close> and \<^verbatim>\<open>ftp\<close> always, for \<^verbatim>\<open>file\<close> after two slashes
  or backslashes, and for any other scheme after two slashes.
\<close>

definition special_schemes :: "js_string list" where
  "special_schemes = [lit ''ftp'', lit ''http'', lit ''https'', lit ''ws'', lit ''wss'']"

definition is_slash_or_backslash :: "code_unit \<Rightarrow> bool" where
  "is_slash_or_backslash c = (c = 0x2F \<or> c = 0x5C)"

definition enters_authority :: "js_string \<Rightarrow> js_string \<Rightarrow> bool" where
  "enters_authority scheme remaining =
     (if scheme = lit ''file'' then
        (case remaining of
           a # b # rest \<Rightarrow> is_slash_or_backslash a \<and> is_slash_or_backslash b
         | _ \<Rightarrow> False)
      else if scheme \<in> set special_schemes then True
      else (case remaining of a # b # rest \<Rightarrow> a = 0x2F \<and> b = 0x2F | _ \<Rightarrow> False))"

text \<open>
  The parser.  \<open>authority scheme remaining\<close> says whether the host parses the
  authority of such an input; it is a parameter of the model.  The URL object is
  represented by the scheme and the text after its colon.
\<close>

definition host_URL ::
  "(js_string \<Rightarrow> js_string \<Rightarrow> bool) \<Rightarrow> js_string \<Rightarrow> (js_string \<times> js_string) option" where
  "host_URL authority urlString =
     (case scheme_start_state (url_strip urlString) of
        None \<Rightarrow> None
      | Some (scheme, remaining) \<Rightarrow>
          if enters_authority scheme remaining \<and> \<not> authority scheme remaining then None
          else Some (scheme, remaining))"

text \<open>
  The structure the specification asks of a valid input, a scheme and an authority: the
  input has a scheme, and the parser goes on to parse an authority after it.
\<close>

definition scheme_and_authority :: "js_string \<Rightarrow> bool" where
  "scheme_and_authority s =
     (case scheme_start_state (url_strip s) of
        None \<Rightarrow> False
      | Some (scheme, remaining) \<Rightarrow> enters_authority scheme remaining)"

section \<open>Persistence and the running program\<close>

text \<open>
  \<^verbatim>\<open>localStorage\<close> maps keys to strings; the program uses the one key
  \<^verbatim>\<open>'qrHistory'\<close>.
\<close>

type_synonym storage = "js_string \<rightharpoonup> js_string"

definition storage_key :: js_string where
  "storage_key = lit ''qrHistory''"

text \<open>
  The effect on \<^verbatim>\<open>[history]\<close>:
  \<^verbatim>\<open>localStorage.setItem('qrHistory', JSON.stringify(history))\<close> inside
  \<^verbatim>\<open>try\<close>/\<^verbatim>\<open>catch\<close>.  \<open>writable\<close> is false when \<^verbatim>\<open>setItem\<close> throws; the exception is
  logged and the store keeps what it had.
\<close>

definition persist_effect :: "bool \<Rightarrow> QrCodeEntry list \<Rightarrow> storage \<Rightarrow> storage" where
  "persist_effect writable h sto =
     (if writable then sto(storage_key \<mapsto> JSON_stringify h) else sto)"

text \<open>
  The effect that runs once after the first render.  \<open>readable\<close> is false when
  \<^verbatim>\<open>getItem\<close> throws.  A missing key, an empty string (falsy) and a \<^verbatim>\<open>SyntaxError\<close> of
  \<^verbatim>\<open>JSON.parse\<close> leave the state as it is.  \<open>Unmodelled\<close> is the case of a parsed value
  that is no history of the typed model: the program calls \<^verbatim>\<open>setHistory\<close> with it all
  the same, and the page is then one with an untyped history.
\<close>

datatype load_result = Unchanged | Loaded "QrCodeEntry list" | Unmodelled json

definition load_effect :: "bool \<Rightarrow> storage \<Rightarrow> load_result" where
  "load_effect readable sto =
     (if \<not> readable then Unchanged
      else
        (case sto storage_key of
           None \<Rightarrow> Unchanged
         | Some storedHistory \<Rightarrow>
             if storedHistory = [] then Unchanged
             else
               (case JSON_parse storedHistory of
                  None \<Rightarrow> Unchanged
                | Some parsed \<Rightarrow>
                    (case as_history parsed of
                       None \<Rightarrow> Unmodelled parsed
                     | Some parsedHistory \<Rightarrow> Loaded parsedHistory))))"

text \<open>
  \<^verbatim>\<open>setHistory(parsedHistory)\<close>, and \<^verbatim>\<open>setCurrentQr(parsedHistory[0])\<close> when the list is
  not empty.
\<close>

definition apply_loaded :: "QrCodeEntry list \<Rightarrow> app_state \<Rightarrow> app_state" where
  "apply_loaded parsedHistory st =
     st\<lparr>history := parsedHistory,
        currentQr := (case parsedHistory of [] \<Rightarrow> currentQr st | first # rest \<Rightarrow> Some first)\<rparr>"

text \<open>
  The program and its surroundings: the state of the component, the store, and the
  inputs of the calls of \<^verbatim>\<open>handleGenerateQrCode\<close> whose encoder has not answered yet.
\<close>

record system =
  app :: app_state
  local_storage :: storage
  pending :: "js_string list"

text \<open>
  A page after loading.  \<open>Untyped v sto\<close> is the page on which \<^verbatim>\<open>setHistory\<close> has been
  called with a parsed value \<open>v\<close> that is no history of the typed model; \<open>sto\<close> is the
  store as the first run of the persisting effect has left it.
\<close>

datatype page = Running system | Untyped json storage

text \<open>
  Loading the page.  Both effects run after the first render, in the order of the
  source: the loading effect, then the persisting effect, which still sees the empty
  initial history.  When the loading effect has set a history the component renders
  again and the persisting effect runs on the loaded history.
\<close>

definition page_load :: "bool \<Rightarrow> bool \<Rightarrow> bool \<Rightarrow> storage \<Rightarrow> page" where
  "page_load readable writable1 writable2 sto =
     (case load_effect readable sto of
        Unmodelled v \<Rightarrow> Untyped v (persist_effect writable1 [] sto)
      | Unchanged \<Rightarrow>
          Running \<lparr>app = initial_state,
                   local_storage = persist_effect writable1 [] sto,
                   pending = []\<rparr>
      | Loaded h \<Rightarrow>
          Running \<lparr>app = apply_loaded h initial_state,
                   local_storage = persist_effect writable2 h (persist_effect writable1 [] sto),
                   pending = []\<rparr>)"

text \<open>\<^verbatim>\<open>onChange\<close> of the input field.\<close>

definition type_input :: "js_string \<Rightarrow> system \<Rightarrow> system" where
  "type_input v s = s\<lparr>app := (app s)\<lparr>urlInput := v\<rparr>\<rparr>"

definition generate_click :: "(js_string \<Rightarrow> 'u option) \<Rightarrow> system \<Rightarrow> system" where
  "generate_click URL_new s =
     (case handleGenerateQrCode_start URL_new (app s) of
        Rejected st' \<Rightarrow> s\<lparr>app := st'\<rparr>
      | Awaiting captured st' \<Rightarrow> s\<lparr>app := st', pending := captured # pending s\<rparr>)"

text \<open>
  The encoder answers a pending call.  A data URL changes the history, so the
  persisting effect runs; a rejection does not.
\<close>

definition generate_settle ::
  "js_string \<Rightarrow> js_string option \<Rightarrow> js_string \<Rightarrow> int \<Rightarrow> bool \<Rightarrow> system \<Rightarrow> system" where
  "generate_settle captured outcome isoString now writable s =
     (let st' = handleGenerateQrCode_resume captured outcome isoString now (app s)
      in \<lparr>app = st',
          local_storage =
            (case outcome of
               Some data \<Rightarrow> persist_effect writable (history st') (local_storage s)
             | None \<Rightarrow> local_storage s),
          pending = remove1 captured (pending s)\<rparr>)"

definition select_item :: "QrCodeEntry \<Rightarrow> system \<Rightarrow> system" where
  "select_item item s = s\<lparr>app := handleSelectHistoryItem item (app s)\<rparr>"

text \<open>
  The clear button.  \<^verbatim>\<open>setHistory([])\<close> is a new array, so the persisting effect runs
  whenever the user has confirmed.
\<close>

definition clear_click :: "bool \<Rightarrow> bool \<Rightarrow> system \<Rightarrow> system" where
  "clear_click confirmed writable s =
     (let st' = handleClearHistory confirmed (app s)
      in \<lparr>app = st',
          local_storage =
            (if confirmed then persist_effect writable (history st') (local_storage s)
             else local_storage s),
          pending = pending s\<rparr>)"

text \<open>
  The pages the program can be in when it starts on the store \<open>sto0\<close>, which may hold
  anything: the page is loaded, and from then on it is loaded again, the user types,
  clicks, selects and clears, and encoders answer, in any order.  The rules do not
  assume that a control is disabled while a call is pending.  What the program does on
  a page with an untyped history is not followed step by step: the rule \<open>untyped\<close>
  admits every page after such a page, so that no run of the program is left out.
\<close>

inductive reachable :: "(js_string \<Rightarrow> 'u option) \<Rightarrow> storage \<Rightarrow> page \<Rightarrow> bool"
  for URL_new :: "js_string \<Rightarrow> 'u option" and sto0 :: storage where
  first_load:
    "reachable URL_new sto0 (page_load r w1 w2 sto0)"
| reload:
    "reachable URL_new sto0 (Running s)
       \<Longrightarrow> reachable URL_new sto0 (page_load r w1 w2 (local_storage s))"
| typing:
    "reachable URL_new sto0 (Running s) \<Longrightarrow> reachable URL_new sto0 (Running (type_input v s))"
| click:
    "reachable URL_new sto0 (Running s)
       \<Longrightarrow> reachable URL_new sto0 (Running (generate_click URL_new s))"
| settle:
    "reachable URL_new sto0 (Running s) \<Longrightarrow> captured \<in> set (pending s)
       \<Longrightarrow> reachable URL_new sto0
             (Running (generate_settle captured outcome isoString now w s))"
| select:
    "reachable URL_new sto0 (Running s) \<Longrightarrow> item \<in> set (history (app s))
       \<Longrightarrow> reachable URL_new sto0 (Running (select_item item s))"
| clear:
    "reachable URL_new sto0 (Running s)
       \<Longrightarrow> reachable URL_new sto0 (Running (clear_click confirmed w s))"
| untyped:
    "reachable URL_new sto0 (Untyped v sto) \<Longrightarrow> reachable URL_new sto0 p"

section \<open>The history as the specification describes it\<close>

text \<open>
  The invariant of the history: at most 20 entries, no two of them with the same
  \<^verbatim>\<open>url\<close>.
\<close>

definition history_ok :: "QrCodeEntry list \<Rightarrow> bool" where
  "history_ok h = (length h \<le> 20 \<and> distinct (map url h))"

text \<open>
  A store from which the loading effect sets no history, or a history that satisfies
  the invariant: the key is missing, its text is empty or no JSON, or it is the text of
  such a history.
\<close>

definition store_ok :: "storage \<Rightarrow> bool" where
  "store_ok sto =
     (case load_effect True sto of
        Unchanged \<Rightarrow> True
      | Loaded h \<Rightarrow> history_ok h
      | Unmodelled v \<Rightarrow> False)"

text \<open>
  Insertion in the words of the specification: remove any entry with the same
  \<^verbatim>\<open>url\<close>, prepend the new entry, truncate to the first 20 entries.
\<close>

definition insert_spec :: "QrCodeEntry \<Rightarrow> QrCodeEntry list \<Rightarrow> QrCodeEntry list" where
  "insert_spec entry h = take 20 (entry # filter (\<lambda>x. url x \<noteq> url entry) h)"

section \<open>Example inputs\<close>

text \<open>Concrete inputs on which the theorems below are instantiated.\<close>

definition accept_all :: "js_string \<Rightarrow> unit option" where
  "accept_all s = Some ()"

definition reject_all :: "js_string \<Rightarrow> unit option" where
  "reject_all s = None"

definition encoder_ok :: "js_string \<Rightarrow> js_string option" where
  "encoder_ok text = Some (lit ''data:image/png;base64,iVBORw0KGgo='')"

definition encoder_fails :: "js_string \<Rightarrow> js_string option" where
  "encoder_fails text = None"

definition typed_example :: app_state where
  "typed_example = initial_state\<lparr>urlInput := lit ''https://example.com''\<rparr>"

definition typed_bad_example :: app_state where
  "typed_bad_example = initial_state\<lparr>urlInput := lit ''not a url''\<rparr>"

definition example_entry :: "nat \<Rightarrow> QrCodeEntry" where
  "example_entry n =
     \<lparr>id_entry = lit ''2024-01-01T00:00:00.000Z'',
      url = lit ''https://example.com/'' @ [of_nat (65 + n)],
      dataUrl = lit ''data:image/png;base64,'' @ [of_nat (65 + n)],
      createdAt = 1704067200000 + int n\<rparr>"

definition examples_21 :: "QrCodeEntry list" where
  "examples_21 =
     map example_entry [0, 1, 2, 3, 4, 5, 6, 7, 8, 9, 10, 11, 12, 13, 14, 15, 16, 17, 18, 19, 20]"

definition same_url_again :: QrCodeEntry where
  "same_url_again = (example_entry 0)\<lparr>dataUrl := lit ''data:image/png;base64,Zm9v''\<rparr>"

text \<open>
  A store that holds twenty entries, the page loaded from it, and a run on that page:
  the user generates a code for a URL that is in the history and then for one that is
  not.
\<close>

definition store_20 :: storage where
  "store_20 = persist_effect True (tl examples_21) Map.empty"

definition loaded_20 :: system where
  "loaded_20 =
     \<lparr>app = apply_loaded (tl examples_21) initial_state,
      local_storage = persist_effect True (tl examples_21) (persist_effect True [] store_20),
      pending = []\<rparr>"

definition generate_example :: "js_string \<Rightarrow> system \<Rightarrow> system" where
  "generate_example typed s =
     generate_settle typed (Some (lit ''data:image/png;base64,iVBORw0KGgo=''))
       (lit ''2024-01-01T00:00:00.000Z'') 1704067200000 True
       (generate_click accept_all (type_input typed s))"

definition example_run :: system where
  "example_run =
     generate_example (url (example_entry 0)) (generate_example (url (example_entry 2)) loaded_20)"

text \<open>
  A store that holds 42 entries, every \<^verbatim>\<open>url\<close> twice, and the page loaded from it; a
  store that holds two entries with the same \<^verbatim>\<open>url\<close>, and the page after loading it and
  generating a code for another URL.
\<close>

definition store_42 :: storage where
  "store_42 = persist_effect True (examples_21 @ examples_21) Map.empty"

definition loaded_42 :: system where
  "loaded_42 =
     \<lparr>app = apply_loaded (examples_21 @ examples_21) initial_state,
      local_storage =
        persist_effect True (examples_21 @ examples_21) (persist_effect True [] store_42),
      pending = []\<rparr>"

definition store_twice :: storage where
  "store_twice = persist_effect True [example_entry 0, same_url_again] Map.empty"

definition loaded_twice :: system where
  "loaded_twice =
     \<lparr>app = apply_loaded [example_entry 0, same_url_again] initial_state,
      local_storage =
        persist_effect True [example_entry 0, same_url_again]
          (persist_effect True [] store_twice),
      pending = []\<rparr>"

text \<open>Parsers of the host that refuse, or accept, every authority.\<close>

definition no_authority :: "js_string \<Rightarrow> js_string \<Rightarrow> bool" where
  "no_authority scheme remaining = False"

definition any_authority :: "js_string \<Rightarrow> js_string \<Rightarrow> bool" where
  "any_authority scheme remaining = True"

section \<open>Insertion into the history\<close>

lemma history_ok_insert: "history_ok h \<Longrightarrow> history_ok (insert_entry e h)"
proof -
  assume ok: "history_ok h"
  let ?f = "filter (\<lambda>item. url item \<noteq> url e) h"
  have d: "distinct (map url ?f)"
    using ok by (simp add: history_ok_def distinct_map_filter)
  have "distinct (take 19 (map url ?f))"
    using d by (rule distinct_take)
  then have d': "distinct (map url (take 19 ?f))"
    by (simp add: take_map)
  have "url e \<notin> url ` set (take 19 ?f)"
    by (auto dest!: in_set_takeD)
  with d' show ?thesis
    by (simp add: history_ok_def insert_entry_def)
qed

lemma url_after_filter:
  "x \<in> set (take n (filter (\<lambda>item. url item \<noteq> u) xs)) \<Longrightarrow> url x \<noteq> u"
  by (auto dest!: in_set_takeD)

lemma insert_twice:
  assumes "url e2 = url e1"
  shows "filter (\<lambda>x. url x = url e2) (insert_entry e2 (insert_entry e1 h)) = [e2]"
proof -
  have "filter (\<lambda>x. url x = url e2)
          (take 19 (filter (\<lambda>item. url item \<noteq> url e2) (insert_entry e1 h))) = []"
    unfolding filter_empty_conv using url_after_filter by blast
  then show ?thesis
    by (simp add: insert_entry_def [of e2])
qed

lemma take19_filter_take20:
  assumes "\<forall>x\<in>set xs. P x"
  shows "take 19 (filter P (take 20 (xs @ ys)))
       = take 19 (xs @ filter P (take (20 - length xs) ys))"
proof -
  have f: "filter P (take 20 xs) = take 20 xs"
    using assms by (auto simp: filter_id_conv dest!: in_set_takeD)
  show ?thesis
  proof (cases "length xs < 20")
    case True
    then show ?thesis using f by simp
  next
    case False
    then show ?thesis using f by (simp add: take_Suc_conv_app_nth min_def)
  qed
qed

text \<open>
  After any number of insertions of entries with different \<^verbatim>\<open>url\<close>s the history
  starts with them, newest first, cut at 20.
\<close>

lemma foldl_insert_distinct:
  "es \<noteq> [] \<Longrightarrow> distinct (map url es) \<Longrightarrow>
     \<exists>ys. foldl (\<lambda>h e. insert_entry e h) h es = take 20 (rev es @ ys)"
proof (induction es rule: rev_induct)
  case Nil
  then show ?case by simp
next
  case (snoc x xs)
  show ?case
  proof (cases "xs = []")
    case True
    have "insert_entry x h = take 20 (rev [x] @ filter (\<lambda>item. url item \<noteq> url x) h)"
      by (simp add: insert_entry_def)
    with True show ?thesis by auto
  next
    case False
    with snoc obtain ys where ys: "foldl (\<lambda>h e. insert_entry e h) h xs = take 20 (rev xs @ ys)"
      by auto
    have P: "\<forall>y\<in>set (rev xs). url y \<noteq> url x"
      using snoc.prems by (auto simp: image_iff)
    have "insert_entry x (take 20 (rev xs @ ys))
        = take 20 (rev (xs @ [x])
            @ filter (\<lambda>item. url item \<noteq> url x) (take (20 - length (rev xs)) ys))"
      unfolding insert_entry_def take19_filter_take20 [OF P] by simp
    with ys show ?thesis by auto
  qed
qed

lemma insert_21:
  assumes "length es = 21" "distinct (map url es)"
  shows "foldl (\<lambda>h e. insert_entry e h) h es = rev (tl es)"
proof -
  from assms have "es \<noteq> []" by auto
  from foldl_insert_distinct [OF this assms(2)] obtain ys
    where "foldl (\<lambda>h e. insert_entry e h) h es = take 20 (rev es @ ys)" by blast
  moreover have "take 20 (rev es @ ys) = take 20 (rev es)"
    using assms(1) by simp
  moreover have "take 20 (rev es) = rev (tl es)"
    using assms(1) by (cases es) (simp_all add: take_rev)
  ultimately show ?thesis by simp
qed

text \<open>
  C2.  Inserting an entry removes every entry with the same \<^verbatim>\<open>url\<close>, puts the new entry
  in front and keeps the first 20 entries (the list the source builds is the list the
  specification describes), and a successful call of \<^verbatim>\<open>handleGenerateQrCode\<close> makes the
  new entry the current selection and inserts it in this way.  Inserting two entries
  with the same \<^verbatim>\<open>url\<close> one after the other leaves exactly one entry with that
  \<^verbatim>\<open>url\<close>: the second one, at position 0.  Inserting 21 entries with pairwise different
  \<^verbatim>\<open>url\<close>s leaves the last 20 of them, newest first: the first one inserted is gone.
\<close>

theorem insert_contract:
  "insert_entry entry h = insert_spec entry h
   \<and> currentQr (handleGenerateQrCode_resume u (Some d) isoString now st)
       = Some \<lparr>id_entry = isoString, url = u, dataUrl = d, createdAt = now\<rparr>
   \<and> history (handleGenerateQrCode_resume u (Some d) isoString now st)
       = insert_spec \<lparr>id_entry = isoString, url = u, dataUrl = d, createdAt = now\<rparr> (history st)
   \<and> (url e2 = url e1 \<longrightarrow>
        filter (\<lambda>x. url x = url e2) (insert_entry e2 (insert_entry e1 h)) = [e2]
        \<and> insert_entry e2 (insert_entry e1 h) ! 0 = e2)
   \<and> (length es = 21 \<and> distinct (map url es) \<longrightarrow>
        length (foldl (\<lambda>h e. insert_entry e h) h es) = 20
        \<and> foldl (\<lambda>h e. insert_entry e h) h es = rev (tl es))"
proof -
  have spec: "\<And>e k. insert_entry e k = insert_spec e k"
    by (simp add: insert_entry_def insert_spec_def)
  have sel: "currentQr (handleGenerateQrCode_resume u (Some d) isoString now st)
       = Some \<lparr>id_entry = isoString, url = u, dataUrl = d, createdAt = now\<rparr>"
    by (simp add: handleGenerateQrCode_resume_def Let_def)
  have hist: "history (handleGenerateQrCode_resume u (Some d) isoString now st)
       = insert_spec \<lparr>id_entry = isoString, url = u, dataUrl = d, createdAt = now\<rparr> (history st)"
    by (simp add: handleGenerateQrCode_resume_def Let_def spec)
  have twice: "url e2 = url e1 \<longrightarrow>
        filter (\<lambda>x. url x = url e2) (insert_entry e2 (insert_entry e1 h)) = [e2]
        \<and> insert_entry e2 (insert_entry e1 h) ! 0 = e2"
    using insert_twice [of e2 e1 h] by (simp add: insert_entry_def [of e2])
  have many: "length es = 21 \<and> distinct (map url es) \<longrightarrow>
        length (foldl (\<lambda>h e. insert_entry e h) h es) = 20
        \<and> foldl (\<lambda>h e. insert_entry e h) h es = rev (tl es)"
    using insert_21 [of es h] by auto
  from spec sel hist twice many show ?thesis by blast
qed

theorem insert_contract_witness:
  "url same_url_again = url (example_entry 0)
   \<and> dataUrl same_url_again \<noteq> dataUrl (example_entry 0)
   \<and> filter (\<lambda>x. url x = url same_url_again)
        (insert_entry same_url_again (insert_entry (example_entry 0) [example_entry 1]))
       = [same_url_again]
   \<and> insert_entry same_url_again (insert_entry (example_entry 0) [example_entry 1]) ! 0
       = same_url_again
   \<and> length examples_21 = 21
   \<and> distinct (map url examples_21)
   \<and> length (foldl (\<lambda>h e. insert_entry e h) [example_entry 1] examples_21) = 20
   \<and> foldl (\<lambda>h e. insert_entry e h) [example_entry 1] examples_21 = rev (tl examples_21)"
proof -
  have a: "url same_url_again = url (example_entry 0)"
    by (simp add: same_url_again_def)
  have b: "dataUrl same_url_again \<noteq> dataUrl (example_entry 0)"
    by (simp add: same_url_again_def example_entry_def lit_def)
  have c: "length examples_21 = 21"
    by (simp add: examples_21_def)
  have d: "distinct (map url examples_21)"
    by (simp add: examples_21_def example_entry_def)
  from a b c d
    insert_contract [of "example_entry 0" "[example_entry 1]" "[]" "[]" "[]" 0 initial_state
      same_url_again "example_entry 0" examples_21]
  show ?thesis by blast
qed

section \<open>Generating a code\<close>

text \<open>
  C3.  When the input fails the validation, \<^verbatim>\<open>handleGenerateQrCode\<close> sets the error
  message and changes nothing else: the history, the current selection, the loading
  flag and the input field are what they were.
\<close>

theorem invalid_input_only_sets_error:
  "input_rejected URL_new (urlInput st) \<Longrightarrow>
     handleGenerateQrCode URL_new toDataURL isoString now st
       = st\<lparr>error := Some (lit ''Please enter a valid URL (e.g., https://example.com).'')\<rparr>"
  by (simp add: handleGenerateQrCode_def handleGenerateQrCode_start_def msg_invalid_url_def)

theorem invalid_input_only_sets_error_witness:
  "input_rejected reject_all (urlInput typed_bad_example)
   \<and> handleGenerateQrCode reject_all encoder_ok [] 0 typed_bad_example
       = typed_bad_example
           \<lparr>error := Some (lit ''Please enter a valid URL (e.g., https://example.com).'')\<rparr>"
proof -
  have r: "input_rejected reject_all (urlInput typed_bad_example)"
    by (simp add: input_rejected_def isValidUrl_def reject_all_def)
  from r invalid_input_only_sets_error
      [where URL_new = reject_all and st = typed_bad_example and toDataURL = encoder_ok
         and isoString = "[]" and now = 0, OF r]
  show ?thesis by simp
qed

text \<open>
  C4.  When the input \<open>S\<close> passes the validation and the encoder returns a data URL, the
  current selection after \<^verbatim>\<open>handleGenerateQrCode\<close> has \<^verbatim>\<open>url\<close> \<open>S\<close>, and so has the first
  entry of the history.
\<close>

theorem generated_entry_is_first:
  "\<not> input_rejected URL_new (urlInput st) \<Longrightarrow> toDataURL (urlInput st) = Some d \<Longrightarrow>
     map_option url (currentQr (handleGenerateQrCode URL_new toDataURL isoString now st))
       = Some (urlInput st)
     \<and> history (handleGenerateQrCode URL_new toDataURL isoString now st) \<noteq> []
     \<and> url (history (handleGenerateQrCode URL_new toDataURL isoString now st) ! 0)
       = urlInput st"
  by (simp add: handleGenerateQrCode_def handleGenerateQrCode_start_def
      handleGenerateQrCode_resume_def insert_entry_def Let_def)

lemma example_url_accepted: "\<not> input_rejected accept_all (urlInput typed_example)"
  by (simp add: input_rejected_def isValidUrl_def accept_all_def typed_example_def
      initial_state_def trim_def is_white_def lit_def)

theorem generated_entry_is_first_witness:
  "\<not> input_rejected accept_all (urlInput typed_example)
   \<and> encoder_ok (urlInput typed_example) = Some (lit ''data:image/png;base64,iVBORw0KGgo='')
   \<and> map_option url (currentQr (handleGenerateQrCode accept_all encoder_ok [] 0 typed_example))
       = Some (lit ''https://example.com'')
   \<and> url (history (handleGenerateQrCode accept_all encoder_ok [] 0 typed_example) ! 0)
       = lit ''https://example.com''"
proof -
  have e: "encoder_ok (urlInput typed_example) = Some (lit ''data:image/png;base64,iVBORw0KGgo='')"
    by (simp add: encoder_ok_def)
  have u: "urlInput typed_example = lit ''https://example.com''"
    by (simp add: typed_example_def)
  from generated_entry_is_first
      [where URL_new = accept_all and st = typed_example and toDataURL = encoder_ok
         and isoString = "[]" and now = 0, OF example_url_accepted e]
    e u example_url_accepted
  show ?thesis by simp
qed

text \<open>
  C5.  When the encoder fails, \<^verbatim>\<open>handleGenerateQrCode\<close> sets the error message
  ``Failed to generate QR code. Please try again.'' and leaves the current selection
  and the history as they were: the state it returns differs from the one it was
  called on in the error message and the cleared loading flag only.
\<close>

theorem encoder_failure_keeps_state:
  "\<not> input_rejected URL_new (urlInput st) \<Longrightarrow> toDataURL (urlInput st) = None \<Longrightarrow>
     error (handleGenerateQrCode URL_new toDataURL isoString now st)
       = Some (lit ''Failed to generate QR code. Please try again.'')
     \<and> currentQr (handleGenerateQrCode URL_new toDataURL isoString now st) = currentQr st
     \<and> history (handleGenerateQrCode URL_new toDataURL isoString now st) = history st
     \<and> handleGenerateQrCode URL_new toDataURL isoString now st
         = st\<lparr>isLoading := False,
              error := Some (lit ''Failed to generate QR code. Please try again.'')\<rparr>"
  by (simp add: handleGenerateQrCode_def handleGenerateQrCode_start_def
      handleGenerateQrCode_resume_def msg_generate_failed_def)

theorem encoder_failure_keeps_state_witness:
  "\<not> input_rejected accept_all (urlInput typed_example)
   \<and> encoder_fails (urlInput typed_example) = None
   \<and> error (handleGenerateQrCode accept_all encoder_fails [] 0 typed_example)
       = Some (lit ''Failed to generate QR code. Please try again.'')
   \<and> currentQr (handleGenerateQrCode accept_all encoder_fails [] 0 typed_example) = None
   \<and> history (handleGenerateQrCode accept_all encoder_fails [] 0 typed_example) = []"
proof -
  have e: "encoder_fails (urlInput typed_example) = None"
    by (simp add: encoder_fails_def)
  have s: "currentQr typed_example = None \<and> history typed_example = []"
    by (simp add: typed_example_def initial_state_def)
  from encoder_failure_keeps_state
      [where URL_new = accept_all and st = typed_example and toDataURL = encoder_fails
         and isoString = "[]" and now = 0, OF example_url_accepted e]
    e s example_url_accepted
  show ?thesis by simp
qed

text \<open>
  C10.  \<^verbatim>\<open>handleGenerateQrCode\<close> empties the input field when it succeeds; when the input
  is rejected or the encoder fails, the input field keeps its text.
\<close>

theorem input_field_after_generate:
  "urlInput (handleGenerateQrCode URL_new toDataURL isoString now st)
     = (if input_rejected URL_new (urlInput st) \<or> toDataURL (urlInput st) = None
        then urlInput st else [])"
  by (auto simp add: handleGenerateQrCode_def handleGenerateQrCode_start_def
      handleGenerateQrCode_resume_def Let_def split: option.splits)

theorem input_field_after_generate_witness:
  "urlInput (handleGenerateQrCode accept_all encoder_ok [] 0 typed_example) = []
   \<and> urlInput (handleGenerateQrCode accept_all encoder_fails [] 0 typed_example)
       = lit ''https://example.com''
   \<and> urlInput (handleGenerateQrCode reject_all encoder_ok [] 0 typed_bad_example)
       = lit ''not a url''"
proof -
  have r: "input_rejected reject_all (urlInput typed_bad_example)"
    by (simp add: input_rejected_def isValidUrl_def reject_all_def)
  have u: "urlInput typed_example = lit ''https://example.com''"
    "urlInput typed_bad_example = lit ''not a url''"
    by (simp_all add: typed_example_def typed_bad_example_def)
  have e: "encoder_ok (urlInput typed_example) \<noteq> None" "encoder_fails (urlInput typed_example) = None"
    by (simp_all add: encoder_ok_def encoder_fails_def)
  from r u e example_url_accepted
    input_field_after_generate [of accept_all encoder_ok "[]" 0 typed_example]
    input_field_after_generate [of accept_all encoder_fails "[]" 0 typed_example]
    input_field_after_generate [of reject_all encoder_ok "[]" 0 typed_bad_example]
  show ?thesis by auto
qed

section \<open>The validation of the input\<close>

lemma dropWhile_all_iff: "(\<forall>x\<in>set (dropWhile P xs). P x) \<longleftrightarrow> (\<forall>x\<in>set xs. P x)"
  by (induction xs) auto

text \<open>A string is empty after trimming exactly when it consists of white space.\<close>

lemma trim_empty_iff: "trim s = [] \<longleftrightarrow> list_all is_white s"
  by (simp add: trim_def dropWhile_eq_Nil_conv list_all_iff dropWhile_all_iff)

text \<open>
  The scheme state succeeds exactly on a run of scheme characters followed by a colon;
  the scheme is that run in lower case.
\<close>

lemma colon_no_scheme_char: "\<not> is_scheme_char 0x3A"
  by (simp add: is_scheme_char_def is_ascii_alpha_def is_digit_def)

lemma scheme_state_iff:
  "scheme_state buffer t = Some (scheme, remaining) \<longleftrightarrow>
     (\<exists>raw. t = raw @ 0x3A # remaining \<and> list_all is_scheme_char raw
        \<and> scheme = buffer @ map ascii_lower raw)"
proof (induction t arbitrary: buffer)
  case Nil
  then show ?case by simp
next
  case (Cons c cs)
  show ?case
  proof (cases "is_scheme_char c")
    case True
    then have c: "c \<noteq> 0x3A" using colon_no_scheme_char by auto
    have "(\<exists>raw. c # cs = raw @ 0x3A # remaining \<and> list_all is_scheme_char raw
            \<and> scheme = buffer @ map ascii_lower raw)
        \<longleftrightarrow> (\<exists>raw'. cs = raw' @ 0x3A # remaining \<and> list_all is_scheme_char raw'
            \<and> scheme = (buffer @ [ascii_lower c]) @ map ascii_lower raw')"
    proof
      assume "\<exists>raw. c # cs = raw @ 0x3A # remaining \<and> list_all is_scheme_char raw
            \<and> scheme = buffer @ map ascii_lower raw"
      then obtain raw where r: "c # cs = raw @ 0x3A # remaining" "list_all is_scheme_char raw"
        "scheme = buffer @ map ascii_lower raw" by blast
      from r(1) c obtain raw' where "raw = c # raw'" by (cases raw) auto
      with r show "\<exists>raw'. cs = raw' @ 0x3A # remaining \<and> list_all is_scheme_char raw'
            \<and> scheme = (buffer @ [ascii_lower c]) @ map ascii_lower raw'" by auto
    next
      assume "\<exists>raw'. cs = raw' @ 0x3A # remaining \<and> list_all is_scheme_char raw'
            \<and> scheme = (buffer @ [ascii_lower c]) @ map ascii_lower raw'"
      then obtain raw' where "cs = raw' @ 0x3A # remaining" "list_all is_scheme_char raw'"
        "scheme = (buffer @ [ascii_lower c]) @ map ascii_lower raw'" by blast
      with True have "c # cs = (c # raw') @ 0x3A # remaining
          \<and> list_all is_scheme_char (c # raw') \<and> scheme = buffer @ map ascii_lower (c # raw')"
        by simp
      then show "\<exists>raw. c # cs = raw @ 0x3A # remaining \<and> list_all is_scheme_char raw
            \<and> scheme = buffer @ map ascii_lower raw" by blast
    qed
    with True Cons.IH [of "buffer @ [ascii_lower c]"] show ?thesis by simp
  next
    case False
    have "(\<exists>raw. c # cs = raw @ 0x3A # remaining \<and> list_all is_scheme_char raw
            \<and> scheme = buffer @ map ascii_lower raw)
        \<longleftrightarrow> (c = 0x3A \<and> cs = remaining \<and> scheme = buffer)"
    proof
      assume "\<exists>raw. c # cs = raw @ 0x3A # remaining \<and> list_all is_scheme_char raw
            \<and> scheme = buffer @ map ascii_lower raw"
      then obtain raw where r: "c # cs = raw @ 0x3A # remaining" "list_all is_scheme_char raw"
        "scheme = buffer @ map ascii_lower raw" by blast
      from r(1) r(2) False have "raw = []" by (cases raw) auto
      with r show "c = 0x3A \<and> cs = remaining \<and> scheme = buffer" by simp
    next
      assume "c = 0x3A \<and> cs = remaining \<and> scheme = buffer"
      then have "c # cs = [] @ 0x3A # remaining \<and> list_all is_scheme_char []
            \<and> scheme = buffer @ map ascii_lower []" by simp
      then show "\<exists>raw. c # cs = raw @ 0x3A # remaining \<and> list_all is_scheme_char raw
            \<and> scheme = buffer @ map ascii_lower raw" by blast
    qed
    with False show ?thesis by auto
  qed
qed

lemma alpha_scheme_char: "is_ascii_alpha c \<Longrightarrow> is_scheme_char c"
  by (simp add: is_scheme_char_def)

lemma scheme_start_state_iff:
  "scheme_start_state t = Some (scheme, remaining) \<longleftrightarrow>
     (\<exists>raw. t = raw @ 0x3A # remaining \<and> raw \<noteq> [] \<and> is_ascii_alpha (hd raw)
        \<and> list_all is_scheme_char raw \<and> scheme = map ascii_lower raw)"
proof (cases t)
  case Nil
  then show ?thesis by (simp add: scheme_start_state_def)
next
  case (Cons c cs)
  show ?thesis
  proof (cases "is_ascii_alpha c")
    case True
    then have c: "c \<noteq> 0x3A" "is_scheme_char c"
      using colon_no_scheme_char alpha_scheme_char by auto
    have "(\<exists>raw. c # cs = raw @ 0x3A # remaining \<and> raw \<noteq> [] \<and> is_ascii_alpha (hd raw)
            \<and> list_all is_scheme_char raw \<and> scheme = map ascii_lower raw)
        \<longleftrightarrow> (\<exists>raw'. cs = raw' @ 0x3A # remaining \<and> list_all is_scheme_char raw'
            \<and> scheme = [ascii_lower c] @ map ascii_lower raw')"
    proof
      assume "\<exists>raw. c # cs = raw @ 0x3A # remaining \<and> raw \<noteq> [] \<and> is_ascii_alpha (hd raw)
            \<and> list_all is_scheme_char raw \<and> scheme = map ascii_lower raw"
      then obtain raw where r: "c # cs = raw @ 0x3A # remaining" "raw \<noteq> []"
        "list_all is_scheme_char raw" "scheme = map ascii_lower raw" by blast
      from r(1) r(2) obtain raw' where "raw = c # raw'" by (cases raw) auto
      with r show "\<exists>raw'. cs = raw' @ 0x3A # remaining \<and> list_all is_scheme_char raw'
            \<and> scheme = [ascii_lower c] @ map ascii_lower raw'" by auto
    next
      assume "\<exists>raw'. cs = raw' @ 0x3A # remaining \<and> list_all is_scheme_char raw'
            \<and> scheme = [ascii_lower c] @ map ascii_lower raw'"
      then obtain raw' where "cs = raw' @ 0x3A # remaining" "list_all is_scheme_char raw'"
        "scheme = [ascii_lower c] @ map ascii_lower raw'" by blast
      with True c have "c # cs = (c # raw') @ 0x3A # remaining \<and> c # raw' \<noteq> []
          \<and> is_ascii_alpha (hd (c # raw')) \<and> list_all is_scheme_char (c # raw')
          \<and> scheme = map ascii_lower (c # raw')"
        by simp
      then show "\<exists>raw. c # cs = raw @ 0x3A # remaining \<and> raw \<noteq> [] \<and> is_ascii_alpha (hd raw)
            \<and> list_all is_scheme_char raw \<and> scheme = map ascii_lower raw" by blast
    qed
    with True Cons scheme_state_iff [of "[ascii_lower c]" cs scheme remaining]
    show ?thesis by (simp add: scheme_start_state_def)
  next
    case False
    have "\<not> (\<exists>raw. c # cs = raw @ 0x3A # remaining \<and> raw \<noteq> [] \<and> is_ascii_alpha (hd raw)
            \<and> list_all is_scheme_char raw \<and> scheme = map ascii_lower raw)"
    proof
      assume "\<exists>raw. c # cs = raw @ 0x3A # remaining \<and> raw \<noteq> [] \<and> is_ascii_alpha (hd raw)
            \<and> list_all is_scheme_char raw \<and> scheme = map ascii_lower raw"
      then obtain raw where r: "c # cs = raw @ 0x3A # remaining" "raw \<noteq> []"
        "is_ascii_alpha (hd raw)" by blast
      from r(1) r(2) have "hd raw = c" by (cases raw) auto
      with r(3) False show False by simp
    qed
    with False Cons show ?thesis by (simp add: scheme_start_state_def)
  qed
qed

lemma alpha_not_white: "is_ascii_alpha c \<Longrightarrow> \<not> is_white c"
  by (auto simp: is_ascii_alpha_def is_white_def word_le_nat_alt)

lemma set_url_strip: "set (url_strip s) \<subseteq> set s"
  by (auto simp: url_strip_def dest!: set_dropWhileD)

text \<open>
  An input that the parser accepts holds an ASCII letter, so it is not empty after
  trimming: the first half of the guard adds nothing to the second.
\<close>

lemma host_URL_needs_text:
  assumes "host_URL authority s = Some u"
  shows "trim s \<noteq> []"
proof -
  from assms obtain scheme remaining where "scheme_start_state (url_strip s) = Some (scheme, remaining)"
    by (auto simp: host_URL_def split: option.splits)
  then obtain raw where r: "url_strip s = raw @ 0x3A # remaining" "raw \<noteq> []" "is_ascii_alpha (hd raw)"
    using scheme_start_state_iff by blast
  then have "hd raw \<in> set (url_strip s)" by (cases raw) auto
  then have "hd raw \<in> set s" using set_url_strip by blast
  with r(3) alpha_not_white have "\<not> list_all is_white s" by (auto simp: list_all_iff)
  then show ?thesis by (simp add: trim_empty_iff)
qed

lemma host_URL_iff:
  "(\<exists>u. host_URL authority s = Some u) \<longleftrightarrow>
     (\<exists>raw remaining. url_strip s = raw @ 0x3A # remaining \<and> raw \<noteq> []
        \<and> is_ascii_alpha (hd raw) \<and> list_all is_scheme_char raw
        \<and> (enters_authority (map ascii_lower raw) remaining
             \<longrightarrow> authority (map ascii_lower raw) remaining))"
proof
  assume "\<exists>u. host_URL authority s = Some u"
  then obtain scheme remaining where p: "scheme_start_state (url_strip s) = Some (scheme, remaining)"
    and a: "enters_authority scheme remaining \<longrightarrow> authority scheme remaining"
    by (auto simp: host_URL_def split: option.splits if_splits)
  from p obtain raw where "url_strip s = raw @ 0x3A # remaining" "raw \<noteq> []"
    "is_ascii_alpha (hd raw)" "list_all is_scheme_char raw" "scheme = map ascii_lower raw"
    using scheme_start_state_iff by blast
  with a show "\<exists>raw remaining. url_strip s = raw @ 0x3A # remaining \<and> raw \<noteq> []
        \<and> is_ascii_alpha (hd raw) \<and> list_all is_scheme_char raw
        \<and> (enters_authority (map ascii_lower raw) remaining
             \<longrightarrow> authority (map ascii_lower raw) remaining)" by blast
next
  assume "\<exists>raw remaining. url_strip s = raw @ 0x3A # remaining \<and> raw \<noteq> []
        \<and> is_ascii_alpha (hd raw) \<and> list_all is_scheme_char raw
        \<and> (enters_authority (map ascii_lower raw) remaining
             \<longrightarrow> authority (map ascii_lower raw) remaining)"
  then obtain raw remaining where r: "url_strip s = raw @ 0x3A # remaining" "raw \<noteq> []"
    "is_ascii_alpha (hd raw)" "list_all is_scheme_char raw"
    and a: "enters_authority (map ascii_lower raw) remaining
             \<longrightarrow> authority (map ascii_lower raw) remaining" by blast
  from r have "scheme_start_state (url_strip s) = Some (map ascii_lower raw, remaining)"
    using scheme_start_state_iff [of "url_strip s" "map ascii_lower raw" remaining] by blast
  with a show "\<exists>u. host_URL authority s = Some u"
    by (simp add: host_URL_def)
qed


text \<open>
  C7, as the specification has it, is that the validator accepts exactly the inputs
  that are not empty after trimming and are well-formed absolute URLs with a scheme and
  an authority.  The validator accepts \<^verbatim>\<open>a:b\<close> and \<^verbatim>\<open>mailto:x@example.com\<close>, which have a
  scheme and no authority; the parser does not look for one there.
\<close>

theorem validator_accepts_without_authority:
  "\<not> input_rejected (host_URL no_authority) (lit ''a:b'')
   \<and> \<not> scheme_and_authority (lit ''a:b'')
   \<and> \<not> input_rejected (host_URL no_authority) (lit ''mailto:x@example.com'')
   \<and> \<not> scheme_and_authority (lit ''mailto:x@example.com'')"
  by (simp add: input_rejected_def isValidUrl_def host_URL_def scheme_and_authority_def
      scheme_start_state_def url_strip_def is_c0_or_space_def is_tab_or_newline_def
      is_ascii_alpha_def is_scheme_char_def is_digit_def ascii_lower_def enters_authority_def
      special_schemes_def trim_def is_white_def lit_def)

text \<open>
  C7, amended.  The validator accepts an input exactly when the input is not empty
  after trimming and the URL parser of the host accepts it
  (\<^verbatim>\<open>handleGenerateQrCode\<close> goes on to the encoder exactly then).  The parser accepts an
  input exactly when, after the control characters and spaces at its ends and its tabs
  and newlines are removed, it starts with a scheme (an ASCII letter, then letters,
  digits, \<^verbatim>\<open>+\<close>, \<^verbatim>\<open>-\<close>, \<^verbatim>\<open>.\<close>) and a colon, and its authority parses where the parser
  looks for one; an authority is not required otherwise.
\<close>

theorem validator_accepts_parsed_urls:
  "(\<not> input_rejected URL_new s \<longleftrightarrow> trim s \<noteq> [] \<and> (\<exists>u. URL_new s = Some u))
   \<and> ((\<exists>st'. handleGenerateQrCode_start URL_new st = Awaiting (urlInput st) st')
        \<longleftrightarrow> \<not> input_rejected URL_new (urlInput st))
   \<and> (\<not> input_rejected (host_URL authority) s \<longleftrightarrow>
        (\<exists>raw remaining. url_strip s = raw @ 0x3A # remaining \<and> raw \<noteq> []
           \<and> is_ascii_alpha (hd raw) \<and> list_all is_scheme_char raw
           \<and> (enters_authority (map ascii_lower raw) remaining
                \<longrightarrow> authority (map ascii_lower raw) remaining)))"
proof -
  have a: "\<not> input_rejected URL_new s \<longleftrightarrow> trim s \<noteq> [] \<and> (\<exists>u. URL_new s = Some u)"
    by (auto simp add: input_rejected_def isValidUrl_def split: option.splits)
  have b: "(\<exists>st'. handleGenerateQrCode_start URL_new st = Awaiting (urlInput st) st')
        \<longleftrightarrow> \<not> input_rejected URL_new (urlInput st)"
    by (simp add: handleGenerateQrCode_start_def)
  have "\<not> input_rejected (host_URL authority) s \<longleftrightarrow> (\<exists>u. host_URL authority s = Some u)"
    using host_URL_needs_text [of authority s]
    by (auto simp add: input_rejected_def isValidUrl_def split: option.splits)
  then have c: "\<not> input_rejected (host_URL authority) s \<longleftrightarrow>
        (\<exists>raw remaining. url_strip s = raw @ 0x3A # remaining \<and> raw \<noteq> []
           \<and> is_ascii_alpha (hd raw) \<and> list_all is_scheme_char raw
           \<and> (enters_authority (map ascii_lower raw) remaining
                \<longrightarrow> authority (map ascii_lower raw) remaining))"
    unfolding host_URL_iff .
  from a b c show ?thesis by blast
qed

lemmas url_eval =
  input_rejected_def isValidUrl_def host_URL_def scheme_start_state_def url_strip_def
  is_c0_or_space_def is_tab_or_newline_def is_ascii_alpha_def is_scheme_char_def is_digit_def
  ascii_lower_def enters_authority_def special_schemes_def trim_def is_white_def lit_def

theorem validator_accepts_parsed_urls_witness:
  "url_strip (lit '' https://Example.com '') = lit ''https'' @ 0x3A # lit ''//Example.com''
   \<and> enters_authority (lit ''https'') (lit ''//Example.com'')
   \<and> \<not> input_rejected (host_URL any_authority) (lit '' https://Example.com '')
   \<and> input_rejected (host_URL no_authority) (lit '' https://Example.com '')
   \<and> input_rejected (host_URL any_authority) (lit ''not a url'')
   \<and> input_rejected (host_URL any_authority) (lit ''   '')
   \<and> trim (lit ''   '') = []"
proof -
  have s: "url_strip (lit '' https://Example.com '') = lit ''https'' @ 0x3A # lit ''//Example.com''"
    by (simp add: url_strip_def is_c0_or_space_def is_tab_or_newline_def lit_def)
  have r: "lit ''https'' \<noteq> [] \<and> is_ascii_alpha (hd (lit ''https''))
      \<and> list_all is_scheme_char (lit ''https'')
      \<and> map ascii_lower (lit ''https'') = lit ''https''"
    by (simp add: lit_def is_ascii_alpha_def is_scheme_char_def ascii_lower_def)
  have e: "enters_authority (lit ''https'') (lit ''//Example.com'')"
    by (simp add: enters_authority_def special_schemes_def lit_def)
  have "\<exists>raw remaining. url_strip (lit '' https://Example.com '') = raw @ 0x3A # remaining
      \<and> raw \<noteq> [] \<and> is_ascii_alpha (hd raw) \<and> list_all is_scheme_char raw
      \<and> (enters_authority (map ascii_lower raw) remaining
           \<longrightarrow> any_authority (map ascii_lower raw) remaining)"
    using s r by (auto simp add: any_authority_def)
  then have acc: "\<not> input_rejected (host_URL any_authority) (lit '' https://Example.com '')"
    using validator_accepts_parsed_urls [where authority = any_authority
        and s = "lit '' https://Example.com ''"]
    by blast
  have rej: "input_rejected (host_URL no_authority) (lit '' https://Example.com '')"
    "input_rejected (host_URL any_authority) (lit ''not a url'')"
    "input_rejected (host_URL any_authority) (lit ''   '')"
    "trim (lit ''   '') = []"
    by (simp_all add: url_eval no_authority_def)
  from s e acc rej show ?thesis by blast
qed

text \<open>
  C8, as the specification has it, is that the message for a rejected input is
  ``Please enter a valid URL''.  The source sets a longer text, which names an example.
\<close>

theorem invalid_message_not_short:
  "error (handleGenerateQrCode reject_all encoder_ok [] 0 typed_bad_example)
     \<noteq> Some (lit ''Please enter a valid URL'')"
  by (simp add: handleGenerateQrCode_def handleGenerateQrCode_start_def input_rejected_def
      isValidUrl_def reject_all_def msg_invalid_url_def lit_def)

text \<open>
  C8, amended.  For every input that fails the validation the message set by
  \<^verbatim>\<open>handleGenerateQrCode\<close> is exactly
  ``Please enter a valid URL (e.g., https://example.com).''.
\<close>

theorem invalid_message_exact:
  "input_rejected URL_new (urlInput st) \<Longrightarrow>
     error (handleGenerateQrCode URL_new toDataURL isoString now st)
       = Some (lit ''Please enter a valid URL (e.g., https://example.com).'')"
  by (simp add: handleGenerateQrCode_def handleGenerateQrCode_start_def msg_invalid_url_def)

theorem invalid_message_exact_witness:
  "input_rejected accept_all (urlInput (initial_state\<lparr>urlInput := lit ''   ''\<rparr>))
   \<and> error (handleGenerateQrCode accept_all encoder_ok [] 0
              (initial_state\<lparr>urlInput := lit ''   ''\<rparr>))
       = Some (lit ''Please enter a valid URL (e.g., https://example.com).'')"
proof -
  have r: "input_rejected accept_all (urlInput (initial_state\<lparr>urlInput := lit ''   ''\<rparr>))"
    by (simp add: input_rejected_def trim_def is_white_def lit_def)
  from r invalid_message_exact
      [where URL_new = accept_all and st = "initial_state\<lparr>urlInput := lit ''   ''\<rparr>"
         and toDataURL = encoder_ok and isoString = "[]" and now = 0, OF r]
  show ?thesis by simp
qed

section \<open>Clearing the history\<close>

lemma stringify_empty: "JSON_stringify [] = lit ''[]''"
  by (simp add: JSON_stringify_def lit_def)

text \<open>
  C6.  When the user confirms, clearing leaves an empty history and no current
  selection, and the persisting effect writes the empty history under the key
  \<^verbatim>\<open>'qrHistory'\<close> (when \<^verbatim>\<open>setItem\<close> throws, the exception is swallowed and the store
  keeps what it had).  When the user does not confirm, nothing changes.
\<close>

theorem clear_history_contract:
  "history (app (clear_click True writable s)) = []
   \<and> currentQr (app (clear_click True writable s)) = None
   \<and> handleClearHistory True st = st\<lparr>history := [], currentQr := None\<rparr>
   \<and> local_storage (clear_click True writable s) (lit ''qrHistory'')
       = (if writable then Some (lit ''[]'') else local_storage s (lit ''qrHistory''))
   \<and> clear_click False writable s = s
   \<and> handleClearHistory False st = st"
  by (simp add: clear_click_def handleClearHistory_def persist_effect_def stringify_empty
      storage_key_def Let_def)

theorem clear_history_contract_witness:
  "history (app (clear_click True True
      \<lparr>app = handleGenerateQrCode accept_all encoder_ok [] 0 typed_example,
       local_storage = Map.empty, pending = []\<rparr>)) = []
   \<and> history (handleGenerateQrCode accept_all encoder_ok [] 0 typed_example) \<noteq> []
   \<and> local_storage (clear_click True True
      \<lparr>app = handleGenerateQrCode accept_all encoder_ok [] 0 typed_example,
       local_storage = Map.empty, pending = []\<rparr>) (lit ''qrHistory'') = Some (lit ''[]'')"
proof -
  have e: "encoder_ok (urlInput typed_example) = Some (lit ''data:image/png;base64,iVBORw0KGgo='')"
    by (simp add: encoder_ok_def)
  have n: "history (handleGenerateQrCode accept_all encoder_ok [] 0 typed_example) \<noteq> []"
    using example_url_accepted e
    by (simp add: handleGenerateQrCode_def handleGenerateQrCode_start_def
        handleGenerateQrCode_resume_def insert_entry_def Let_def)
  from n clear_history_contract [of True
      "\<lparr>app = handleGenerateQrCode accept_all encoder_ok [] 0 typed_example,
        local_storage = Map.empty, pending = []\<rparr>" initial_state]
  show ?thesis by simp
qed

section \<open>The stored form read back\<close>

subsection \<open>Strings\<close>

lemma below_16: "k < 16 \<Longrightarrow> k \<in> {0, 1, 2, 3, 4, 5, 6, 7, 8, 9, 10, 11, 12, 13, 14, 15 :: nat}"
  by simp arith

lemma hex_value_hex_char: "k < 16 \<Longrightarrow> hex_value (hex_char k) = Some k"
proof -
  assume "k < 16"
  from below_16 [OF this]
  have "k = 0 \<or> k = 1 \<or> k = 2 \<or> k = 3 \<or> k = 4 \<or> k = 5 \<or> k = 6 \<or> k = 7
    \<or> k = 8 \<or> k = 9 \<or> k = 10 \<or> k = 11 \<or> k = 12 \<or> k = 13 \<or> k = 14 \<or> k = 15"
    by simp
  then show ?thesis
    by (elim disjE) (simp_all add: hex_value_def hex_char_def)
qed

lemma hex_digits_value:
  assumes "n < 65536"
  shows "((n div 4096 mod 16 * 16 + n div 256 mod 16) * 16 + n div 16 mod 16) * 16 + n mod 16
           = (n::nat)"
proof -
  define a where "a = n div 16"
  define b where "b = a div 16"
  define c where "c = b div 16"
  have n: "n = 16 * a + n mod 16" by (simp add: a_def)
  have a: "a = 16 * b + a mod 16" by (simp add: b_def)
  have b: "b = 16 * c + b mod 16" by (simp add: c_def)
  have c: "c < 16" using assms by (simp add: a_def b_def c_def div_mult2_eq [symmetric])
  have e: "n div 256 = b" "n div 4096 = c"
    by (simp_all add: a_def b_def c_def div_mult2_eq [symmetric])
  show ?thesis
    unfolding e using n a b c unfolding a_def [symmetric] by simp
qed

lemma parse_hex4_escape:
  "parse_hex4 [hex_char (unat c div 4096 mod 16), hex_char (unat c div 256 mod 16),
      hex_char (unat c div 16 mod 16), hex_char (unat c mod 16)] = Some c"
proof -
  have lt: "unat c < 65536" using unsigned_less [of c, where ?'a = nat] by simp
  have "parse_hex4 [hex_char (unat c div 4096 mod 16), hex_char (unat c div 256 mod 16),
      hex_char (unat c div 16 mod 16), hex_char (unat c mod 16)]
    = Some (of_nat (((unat c div 4096 mod 16 * 16 + unat c div 256 mod 16) * 16
          + unat c div 16 mod 16) * 16 + unat c mod 16))"
    unfolding parse_hex4_def by (simp only: list.map hex_value_hex_char mod_less_divisor
        zero_less_numeral list.case option.case)
  also have "\<dots> = Some c"
    unfolding hex_digits_value [OF lt] by simp
  finally show ?thesis .
qed

lemma parse_chars_escape:
  "parse_chars (unicode_escape c @ rest) = cons_result c (parse_chars rest)"
  using parse_hex4_escape [of c] by (simp add: unicode_escape_def)

lemma surrogate_plain: "is_low_surrogate d \<Longrightarrow> d \<noteq> 0x22 \<and> d \<noteq> 0x5C \<and> \<not> d < 0x20"
  by (auto simp: is_low_surrogate_def word_le_nat_alt word_less_nat_alt)

text \<open>
  One step of the reading of a quoted string, by the cases of \<open>quote_units\<close>: a
  two-character escape, a \<^verbatim>\<open>\uXXXX\<close> escape, a pair of surrogates, a plain code unit.
\<close>

lemma parse_quote_units_step:
  assumes IH: "\<And>ys. length ys < length (c # cs) \<Longrightarrow>
      parse_chars (quote_units ys @ 0x22 # rest) = Some (ys, rest)"
  shows "parse_chars (quote_units (c # cs) @ 0x22 # rest) = Some (c # cs, rest)"
proof -
  have ih: "parse_chars (quote_units cs @ 0x22 # rest) = Some (cs, rest)"
    by (rule IH) simp
  have esc: "parse_chars (unicode_escape c @ quote_units cs @ 0x22 # rest) = Some (c # cs, rest)"
    by (simp only: parse_chars_escape ih cons_result_def option.case prod.case)
  show ?thesis
  proof (cases "c = 0x08 \<or> c = 0x09 \<or> c = 0x0A \<or> c = 0x0C \<or> c = 0x0D \<or> c = 0x22 \<or> c = 0x5C")
    case True
    then show ?thesis
      by (elim disjE) (simp_all add: ih unescape_def cons_result_def)
  next
    case plain: False
    show ?thesis
    proof (cases "c < 0x20")
      case True
      then show ?thesis using plain esc by simp
    next
      case noctl: False
      have raw: "parse_chars (c # quote_units cs @ 0x22 # rest) = Some (c # cs, rest)"
        using plain noctl by (simp add: ih cons_result_def)
      show ?thesis
      proof (cases "is_high_surrogate c")
        case True
        show ?thesis
        proof (cases cs)
          case Nil
          then show ?thesis using plain noctl True esc by simp
        next
          case (Cons d ds)
          have ih2: "parse_chars (quote_units ds @ 0x22 # rest) = Some (ds, rest)"
            by (rule IH) (simp add: Cons)
          show ?thesis
          proof (cases "is_low_surrogate d")
            case low: True
            have "parse_chars (c # d # quote_units ds @ 0x22 # rest) = Some (c # d # ds, rest)"
              using plain noctl surrogate_plain [OF low] by (simp add: ih2 cons_result_def)
            then show ?thesis using plain noctl True Cons low by simp
          next
            case False
            then show ?thesis using plain noctl True Cons esc by simp
          qed
        qed
      next
        case nohigh: False
        show ?thesis
        proof (cases "is_low_surrogate c")
          case True
          then show ?thesis using plain noctl nohigh esc by simp
        next
          case False
          then show ?thesis using plain noctl nohigh raw by simp
        qed
      qed
    qed
  qed
qed

text \<open>The parser reads a quoted string back, whatever code units it holds.\<close>

lemma parse_quote_units:
  "parse_chars (quote_units s @ 0x22 # rest) = Some (s, rest)"
proof (induction s rule: length_induct)
  case (1 xs)
  show ?case
  proof (cases xs)
    case Nil
    then show ?thesis by simp
  next
    case (Cons c cs)
    with 1 show ?thesis using parse_quote_units_step [of c cs rest] by simp
  qed
qed


subsection \<open>Numbers\<close>

lemma below_10: "k < 10 \<Longrightarrow> k \<in> {0, 1, 2, 3, 4, 5, 6, 7, 8, 9 :: nat}"
  by auto

lemma digit_unit:
  "k < 10 \<Longrightarrow> is_digit (of_nat (48 + k)) \<and> digit_value (of_nat (48 + k)) = k
     \<and> (of_nat (48 + k) :: code_unit) \<noteq> 0x2D
     \<and> ((of_nat (48 + k) :: code_unit) = 0x30 \<longleftrightarrow> k = 0)"
  using below_10 [of k] by (auto simp: is_digit_def digit_value_def)

lemma digits_of_digits: "list_all is_digit (digits_of n) \<and> digits_of n \<noteq> []"
proof (induction n rule: digits_of.induct)
  case (1 n)
  show ?case
  proof (cases "n < 10")
    case True
    then show ?thesis using digit_unit [of n] by (simp add: digits_of.simps [of n])
  next
    case False
    then show ?thesis using 1 digit_unit [of "n mod 10"] by (simp add: digits_of.simps [of n])
  qed
qed

lemma digits_of_value: "foldl (\<lambda>acc d. 10 * acc + digit_value d) 0 (digits_of n) = n"
proof (induction n rule: digits_of.induct)
  case (1 n)
  show ?case
  proof (cases "n < 10")
    case True
    then show ?thesis using digit_unit [of n] by (simp add: digits_of.simps [of n])
  next
    case False
    then show ?thesis using 1 digit_unit [of "n mod 10"] by (simp add: digits_of.simps [of n])
  qed
qed

lemma digits_of_head: "\<exists>c cs. digits_of n = c # cs \<and> is_digit c \<and> c \<noteq> 0x2D \<and> (c = 0x30 \<longleftrightarrow> n = 0)
   \<and> (n = 0 \<longrightarrow> cs = [])"
proof (induction n rule: digits_of.induct)
  case (1 n)
  show ?case
  proof (cases "n < 10")
    case True
    then show ?thesis using digit_unit [of n] by (simp add: digits_of.simps [of n])
  next
    case False
    then have "n div 10 \<noteq> 0" by simp
    with False 1 obtain c cs where "digits_of (n div 10) = c # cs" "is_digit c" "c \<noteq> 0x2D" "c \<noteq> 0x30"
      by auto
    with False show ?thesis by (simp add: digits_of.simps [of n])
  qed
qed

lemma nat_of_digits_of: "nat_of_digits (digits_of n) = Some n"
  using digits_of_digits [of n] by (simp add: nat_of_digits_def digits_of_value)

text \<open>The decimal digits of an integer are a number literal with that value.\<close>

lemma int_of_show_int: "int_of_lexeme (show_int i) = Some i"
proof (cases "i < 0")
  case True
  then show ?thesis by (simp add: int_of_lexeme_def show_int_def nat_of_digits_of)
next
  case False
  obtain c cs where d: "digits_of (nat i) = c # cs" "c \<noteq> 0x2D"
    using digits_of_head [of "nat i"] by blast
  have "nat_of_digits (c # cs) = Some (nat i)"
    using nat_of_digits_of [of "nat i"] d by simp
  with False d show ?thesis by (simp add: int_of_lexeme_def show_int_def)
qed

lemma lex_unsigned_digits:
  "lex_unsigned (digits_of n @ 0x7D # rest) = Some (digits_of n, 0x7D # rest)"
proof -
  obtain c cs where d: "digits_of n = c # cs" "is_digit c" "c = 0x30 \<longleftrightarrow> n = 0" "n = 0 \<longrightarrow> cs = []"
    using digits_of_head [of n] by blast
  have all: "\<And>x. x \<in> set cs \<Longrightarrow> is_digit x"
    using digits_of_digits [of n] d by (simp add: list_all_iff)
  have t: "takeWhile is_digit (cs @ 0x7D # rest) = cs" "dropWhile is_digit (cs @ 0x7D # rest) = 0x7D # rest"
    using all by (simp_all add: takeWhile_append2 dropWhile_append2 is_digit_def)
  have i: "lex_int (digits_of n @ 0x7D # rest) = Some (digits_of n, 0x7D # rest)"
    using d t by (auto simp add: lex_int_def)
  show ?thesis
    by (simp add: lex_unsigned_def i lex_frac_def lex_exp_def)
qed

lemma lex_number_show_int:
  "lex_number (show_int i @ 0x7D # rest) = Some (show_int i, 0x7D # rest)"
proof (cases "i < 0")
  case True
  then show ?thesis by (simp add: lex_number_def show_int_def lex_unsigned_digits)
next
  case False
  obtain c cs where d: "digits_of (nat i) = c # cs" "c \<noteq> 0x2D"
    using digits_of_head [of "nat i"] by blast
  have "lex_unsigned (c # cs @ 0x7D # rest) = Some (c # cs, 0x7D # rest)"
    using lex_unsigned_digits [of "nat i" rest] d by simp
  with False d show ?thesis by (simp add: lex_number_def show_int_def)
qed


subsection \<open>Entries and histories\<close>

lemma skip_ws_plain: "\<not> is_json_ws c \<Longrightarrow> skip_ws (c # cs) = c # cs"
  by (simp add: skip_ws_def)

lemma parse_value_string:
  "parse_value (Suc n) (quote_json s @ rest) = Some (JString s, rest)"
  by (subst parse_value.simps)
    (simp add: quote_json_def skip_ws_def is_json_ws_def parse_quote_units map_result_def)

lemma show_int_head:
  "\<exists>c cs. show_int i = c # cs \<and> (c = 0x2D \<or> is_digit c)"
  using digits_of_head [of "nat i"] by (auto simp: show_int_def)

lemma number_start:
  assumes "c = 0x2D \<or> is_digit c"
  shows "\<not> is_json_ws c \<and> c \<noteq> 0x7B \<and> c \<noteq> 0x5B \<and> c \<noteq> 0x22 \<and> c \<noteq> 0x74 \<and> c \<noteq> 0x66 \<and> c \<noteq> 0x6E"
  using assms by (auto simp: is_digit_def is_json_ws_def word_le_nat_alt)

lemma parse_value_number:
  "parse_value (Suc n) (show_int i @ 0x7D # rest) = Some (JNumber (show_int i), 0x7D # rest)"
proof -
  obtain c cs where h: "show_int i = c # cs" "c = 0x2D \<or> is_digit c"
    using show_int_head [of i] by blast
  have "lex_number (c # cs @ 0x7D # rest) = Some (c # cs, 0x7D # rest)"
    using lex_number_show_int [of i rest] h by simp
  then show ?thesis
    using number_start [OF h(2)]
    by (subst parse_value.simps) (simp add: h(1) skip_ws_plain map_result_def)
qed

lemma parse_members_string:
  "parse_members (Suc (Suc n)) (quote_json k @ 0x3A # quote_json s @ 0x2C # after)
     = cons_result (k, JString s) (parse_members (Suc n) after)"
proof -
  have key: "parse_chars (quote_units k @ 0x22 # 0x3A # quote_json s @ 0x2C # after)
      = Some (k, 0x3A # quote_json s @ 0x2C # after)"
    by (rule parse_quote_units)
  have val: "parse_value (Suc n) (quote_json s @ 0x2C # after) = Some (JString s, 0x2C # after)"
    by (rule parse_value_string)
  show ?thesis
    by (subst parse_members.simps)
      (simp add: quote_json_def [of k] skip_ws_def is_json_ws_def key val)
qed

lemma parse_members_last_number:
  "parse_members (Suc (Suc n)) (quote_json k @ 0x3A # show_int i @ 0x7D # rest)
     = Some ([(k, JNumber (show_int i))], rest)"
proof -
  have key: "parse_chars (quote_units k @ 0x22 # 0x3A # show_int i @ 0x7D # rest)
      = Some (k, 0x3A # show_int i @ 0x7D # rest)"
    by (rule parse_quote_units)
  show ?thesis
    by (subst parse_members.simps)
      (simp add: quote_json_def [of k] skip_ws_def is_json_ws_def key parse_value_number)
qed

lemma serialize_entry:
  "serialize (json_of_entry e) =
     0x7B # quote_json (lit ''id'') @ 0x3A # quote_json (id_entry e) @ 0x2C #
       quote_json (lit ''url'') @ 0x3A # quote_json (url e) @ 0x2C #
       quote_json (lit ''dataUrl'') @ 0x3A # quote_json (dataUrl e) @ 0x2C #
       quote_json (lit ''createdAt'') @ 0x3A # show_int (createdAt e) @ [0x7D]"
  by (simp add: json_of_entry_def entry_keys_def)

lemma parse_value_entry:
  "parse_value (Suc (Suc (Suc (Suc (Suc (Suc n)))))) (serialize (json_of_entry e) @ rest)
     = Some (json_of_entry e, rest)"
proof -
  have m: "parse_members (Suc (Suc (Suc (Suc (Suc n)))))
      (quote_json (lit ''id'') @ 0x3A # quote_json (id_entry e) @ 0x2C #
       quote_json (lit ''url'') @ 0x3A # quote_json (url e) @ 0x2C #
       quote_json (lit ''dataUrl'') @ 0x3A # quote_json (dataUrl e) @ 0x2C #
       quote_json (lit ''createdAt'') @ 0x3A # show_int (createdAt e) @ 0x7D # rest)
     = Some ([(lit ''id'', JString (id_entry e)), (lit ''url'', JString (url e)),
              (lit ''dataUrl'', JString (dataUrl e)),
              (lit ''createdAt'', JNumber (show_int (createdAt e)))], rest)"
    by (simp only: parse_members_string parse_members_last_number cons_result_def
        option.case prod.case)
  have o: "\<And>k after m. parse_value (Suc m) (0x7B # quote_json k @ after)
      = map_result JObject (parse_members m (quote_json k @ after))"
    by (subst parse_value.simps) (simp add: quote_json_def skip_ws_def is_json_ws_def)
  show ?thesis
    unfolding serialize_entry
    by (simp add: o m map_result_def json_of_entry_def entry_keys_def)
qed

lemma parse_value_entry_fuel:
  "6 \<le> m \<Longrightarrow> parse_value m (serialize (json_of_entry e) @ rest) = Some (json_of_entry e, rest)"
proof -
  assume "6 \<le> m"
  then obtain n where "m = 6 + n"
    using le_Suc_ex by blast
  then have "m = Suc (Suc (Suc (Suc (Suc (Suc n)))))"
    by simp
  then show ?thesis by (simp only: parse_value_entry)
qed


lemma serialize_entry_start:
  "\<exists>cs. serialize (json_of_entry e) = 0x7B # cs"
  by (simp add: serialize_entry)

lemma parse_elements_entries:
  "es \<noteq> [] \<Longrightarrow>
     parse_elements (length es + 6 + n)
       (join_commas (map (\<lambda>e. serialize (json_of_entry e)) es) @ 0x5D # rest)
     = Some (map json_of_entry es, rest)"
proof (induction es arbitrary: n)
  case Nil
  then show ?case by simp
next
  case (Cons e es)
  have fuel: "length (e # es) + 6 + n = Suc (length es + 6 + n)"
    by simp
  show ?case
  proof (cases es)
    case Nil
    have "parse_value (6 + n) (serialize (json_of_entry e) @ 0x5D # rest)
        = Some (json_of_entry e, 0x5D # rest)"
      by (rule parse_value_entry_fuel) simp
    then show ?thesis
      unfolding fuel by (subst parse_elements.simps) (simp add: Nil skip_ws_def is_json_ws_def)
  next
    case (Cons e' es')
    let ?tail = "join_commas (map (\<lambda>e. serialize (json_of_entry e)) es) @ 0x5D # rest"
    have v: "parse_value (length es + 6 + n) (serialize (json_of_entry e) @ 0x2C # ?tail)
        = Some (json_of_entry e, 0x2C # ?tail)"
      by (rule parse_value_entry_fuel) simp
    have ih: "parse_elements (length es + 6 + n) ?tail = Some (map json_of_entry es, rest)"
      using Cons.IH [of n] Cons by simp
    have split: "join_commas (map (\<lambda>e. serialize (json_of_entry e)) (e # es)) @ 0x5D # rest
        = serialize (json_of_entry e) @ 0x2C # ?tail"
      by (simp add: Cons)
    show ?thesis
      unfolding fuel split
      by (subst parse_elements.simps)
        (simp add: v ih skip_ws_def is_json_ws_def cons_result_def)
  qed
qed

lemma length_join_commas:
  "\<forall>x\<in>set xs. x \<noteq> [] \<Longrightarrow> length xs \<le> length (join_commas xs)"
proof (induction xs rule: join_commas.induct)
  case 1
  then show ?case by simp
next
  case (2 x)
  then have "x \<noteq> []" by simp
  then show ?case by (cases x) simp_all
next
  case (3 x y ys)
  then show ?case by simp
qed

text \<open>
  \<^verbatim>\<open>JSON.parse\<close> reads the text of a history as the array of its entries; the bound on the
  depth of the calls is large enough for it.
\<close>

lemma parse_stringify:
  "JSON_parse (JSON_stringify h) = Some (JArray (map json_of_entry h))"
proof (cases "h = []")
  case True
  have "parse_value (Suc 5) [0x5B, 0x5D] = Some (JArray [], [])"
    by (subst parse_value.simps) (simp add: skip_ws_def is_json_ws_def)
  then show ?thesis
    using True by (simp add: JSON_parse_def JSON_stringify_def skip_ws_def)
next
  case False
  let ?body = "join_commas (map (\<lambda>e. serialize (json_of_entry e)) h)"
  let ?text = "0x5B # ?body @ [0x5D]"
  obtain e es where h: "h = e # es" using False by (cases h) auto
  obtain cs where start: "?body = 0x7B # cs"
    using serialize_entry_start [of e] by (cases es) (auto simp add: h)
  have ne: "\<forall>x\<in>set (map (\<lambda>e. serialize (json_of_entry e)) h). x \<noteq> []"
    by (auto simp add: serialize_entry)
  have "length h \<le> length ?body"
    using length_join_commas [OF ne] by simp
  then obtain n where fuel: "2 * length ?text + 1 = length h + 6 + n"
    using False le_Suc_ex [of "length h + 6" "2 * length ?text + 1"] by (cases h) auto
  have els: "parse_elements (2 * length ?text + 1) (?body @ 0x5D # [])
      = Some (map json_of_entry h, [])"
    unfolding fuel using False by (rule parse_elements_entries)
  have "parse_value (Suc (2 * length ?text + 1)) ?text = Some (JArray (map json_of_entry h), [])"
    by (subst parse_value.simps)
      (simp add: skip_ws_def is_json_ws_def start els [unfolded start, simplified] map_result_def)
  moreover have "2 * length ?text + 2 = Suc (2 * length ?text + 1)"
    by simp
  ultimately show ?thesis
    by (simp add: JSON_parse_def JSON_stringify_def skip_ws_def comp_def del: mult_Suc_right)
qed

lemma as_entry_json_of_entry: "as_entry (json_of_entry e) = Some e"
  by (simp add: as_entry_def json_of_entry_def entry_keys_def int_of_show_int)

lemma as_history_entries: "as_history (JArray (map json_of_entry h)) = Some h"
  by (induction h) (simp_all add: as_history_def as_entry_json_of_entry)

lemma stringify_not_empty: "JSON_stringify h \<noteq> []"
  by (simp add: JSON_stringify_def)

lemma load_after_persist: "load_effect True (persist_effect True h sto) = Loaded h"
  by (simp add: load_effect_def persist_effect_def stringify_not_empty parse_stringify
      as_history_entries)


text \<open>
  C9.  Writing a history with \<^verbatim>\<open>JSON.stringify\<close> and reading the text back with
  \<^verbatim>\<open>JSON.parse\<close> gives the same entries in the same order, each with the same id, url,
  image payload and time; so the loading effect, run on what the persisting effect has
  written for a history, sets that history.
\<close>

theorem stored_history_round_trip:
  "(case JSON_parse (JSON_stringify h) of None \<Rightarrow> None | Some v \<Rightarrow> as_history v) = Some h
   \<and> load_effect True (persist_effect True h sto) = Loaded h
   \<and> history (apply_loaded h st) = h"
  by (simp add: parse_stringify as_history_entries load_after_persist apply_loaded_def)

theorem stored_history_round_trip_witness:
  "load_effect True (persist_effect True [example_entry 0, example_entry 1] Map.empty)
     = Loaded [example_entry 0, example_entry 1]"
  using stored_history_round_trip [of "[example_entry 0, example_entry 1]" Map.empty initial_state]
  by simp

section \<open>The invariant of the history\<close>

lemma history_ok_empty: "history_ok []"
  by (simp add: history_ok_def)

lemma load_effect_unreadable: "load_effect False sto = Unchanged"
  by (simp add: load_effect_def)

lemma store_ok_persist:
  "store_ok sto \<Longrightarrow> history_ok h \<Longrightarrow> store_ok (persist_effect w h sto)"
proof (cases w)
  case True
  assume "history_ok h"
  with True show ?thesis by (simp add: store_ok_def load_after_persist)
next
  case False
  assume "store_ok sto"
  with False show ?thesis by (simp add: persist_effect_def)
qed

text \<open>
  Loading the page on a store of this kind gives a typed page whose history and store
  are of this kind again.
\<close>

lemma page_load_ok:
  assumes "store_ok sto"
  shows "\<exists>s. page_load r w1 w2 sto = Running s \<and> history_ok (history (app s))
           \<and> store_ok (local_storage s)"
proof (cases r)
  case False
  then show ?thesis
    using assms
    by (simp add: page_load_def load_effect_unreadable initial_state_def history_ok_empty
        store_ok_persist)
next
  case True
  show ?thesis
  proof (cases "load_effect True sto")
    case Unchanged
    then show ?thesis
      using assms True
      by (simp add: page_load_def initial_state_def history_ok_empty store_ok_persist)
  next
    case (Loaded h)
    then have "history_ok h" using assms by (simp add: store_ok_def)
    then show ?thesis
      using assms True Loaded
      by (simp add: page_load_def initial_state_def apply_loaded_def history_ok_empty
          store_ok_persist)
  next
    case (Unmodelled v)
    then show ?thesis using assms by (simp add: store_ok_def)
  qed
qed

text \<open>
  Both the history and the store keep the invariant along every step of the program;
  no page with an untyped history is reached.
\<close>

lemma reachable_ok:
  assumes "store_ok sto0"
  shows "reachable URL_new sto0 p \<Longrightarrow>
     \<exists>s. p = Running s \<and> history_ok (history (app s)) \<and> store_ok (local_storage s)"
proof (induction rule: reachable.induct)
  case (first_load r w1 w2)
  from page_load_ok [OF assms, of r w1 w2] show ?case by simp
next
  case (reload s r w1 w2)
  then have "store_ok (local_storage s)" by simp
  from page_load_ok [OF this, of r w1 w2] show ?case by simp
next
  case (typing s v)
  then show ?case by (simp add: type_input_def)
next
  case (click s)
  then show ?case
    by (simp add: generate_click_def handleGenerateQrCode_start_def)
next
  case (settle s captured outcome isoString now w)
  then show ?case
    by (cases outcome)
      (simp_all add: generate_settle_def handleGenerateQrCode_resume_def Let_def
        history_ok_insert store_ok_persist)
next
  case (select s item)
  then show ?case by (simp add: select_item_def handleSelectHistoryItem_def)
next
  case (clear s confirmed w)
  then show ?case
    by (simp add: clear_click_def handleClearHistory_def Let_def history_ok_empty
        store_ok_persist)
next
  case (untyped v sto p)
  then show ?case by simp
qed

lemma handlers_keep_history_ok:
  assumes "history_ok (history st)"
  shows "history_ok (history (handleGenerateQrCode_resume captured outcome isoString now st))"
    and "history_ok (history (handleGenerateQrCode URL_new toDataURL isoString now st))"
    and "history_ok (history (handleSelectHistoryItem item st))"
    and "history_ok (history (handleClearHistory confirmed st))"
proof -
  have r: "\<And>captured outcome st'. history st' = history st \<Longrightarrow>
      history_ok (history (handleGenerateQrCode_resume captured outcome isoString now st'))"
    using assms
    by (simp add: handleGenerateQrCode_resume_def Let_def history_ok_insert split: option.splits)
  show "history_ok (history (handleGenerateQrCode_resume captured outcome isoString now st))"
    by (rule r) simp
  show "history_ok (history (handleGenerateQrCode URL_new toDataURL isoString now st))"
    using assms
    by (simp add: handleGenerateQrCode_def handleGenerateQrCode_start_def r)
  show "history_ok (history (handleSelectHistoryItem item st))"
    using assms by (simp add: handleSelectHistoryItem_def)
  show "history_ok (history (handleClearHistory confirmed st))"
    using assms by (simp add: handleClearHistory_def history_ok_empty)
qed

text \<open>
  The page loaded from the stored form of a list has that list as its history,
  whatever the list is.
\<close>

lemma page_load_stored:
  "page_load True w1 w2 (persist_effect True h sto)
     = Running \<lparr>app = apply_loaded h initial_state,
                local_storage =
                  persist_effect w2 h (persist_effect w1 [] (persist_effect True h sto)),
                pending = []\<rparr>"
  by (simp add: page_load_def load_after_persist)

text \<open>
  C1, as the specification has it, is that the history has at most 20 entries and no
  two entries with the same \<^verbatim>\<open>url\<close> in every reachable state, the loading of the stored
  list included.  The loading effect sets the stored list without a check: from a store
  that holds 42 entries the program is in a state with 42 entries, two for every
  \<^verbatim>\<open>url\<close>; and from a store that holds two entries with one \<^verbatim>\<open>url\<close>, both are still in the
  history after the next code is generated.
\<close>

theorem stored_list_loaded_unchecked:
  "page_load True True True store_42 = Running loaded_42
   \<and> reachable accept_all store_42 (Running loaded_42)
   \<and> length (history (app loaded_42)) = 42
   \<and> \<not> distinct (map url (history (app loaded_42)))
   \<and> page_load True True True store_twice = Running loaded_twice
   \<and> reachable accept_all store_twice
        (Running (generate_example (url (example_entry 1)) loaded_twice))
   \<and> map url (history (app (generate_example (url (example_entry 1)) loaded_twice)))
       = [url (example_entry 1), url (example_entry 0), url (example_entry 0)]"
proof -
  have l: "page_load True True True store_42 = Running loaded_42"
    by (simp add: store_42_def loaded_42_def page_load_stored)
  have r: "reachable accept_all store_42 (Running loaded_42)"
    using reachable.first_load [of accept_all store_42 True True True] l by simp
  have n: "length (history (app loaded_42)) = 42"
    by (simp add: loaded_42_def apply_loaded_def examples_21_def)
  have d: "\<not> distinct (map url (history (app loaded_42)))"
    by (simp add: loaded_42_def apply_loaded_def examples_21_def)
  have l2: "page_load True True True store_twice = Running loaded_twice"
    by (simp add: store_twice_def loaded_twice_def page_load_stored)
  have r2: "reachable accept_all store_twice (Running loaded_twice)"
    using reachable.first_load [of accept_all store_twice True True True] l2 by simp
  have acc: "\<not> input_rejected accept_all (url (example_entry 1))"
    by (simp add: input_rejected_def isValidUrl_def accept_all_def example_entry_def
        trim_def is_white_def lit_def)
  have p: "url (example_entry 1)
      \<in> set (pending (generate_click accept_all (type_input (url (example_entry 1)) loaded_twice)))"
    using acc by (simp add: generate_click_def type_input_def handleGenerateQrCode_start_def)
  have r3: "reachable accept_all store_twice
        (Running (generate_example (url (example_entry 1)) loaded_twice))"
    unfolding generate_example_def
    by (rule reachable.settle [OF reachable.click [OF reachable.typing [OF r2]] p])
  have h: "map url (history (app (generate_example (url (example_entry 1)) loaded_twice)))
       = [url (example_entry 1), url (example_entry 0), url (example_entry 0)]"
    using acc
    by (simp add: generate_example_def generate_settle_def handleGenerateQrCode_resume_def
        Let_def generate_click_def type_input_def loaded_twice_def apply_loaded_def
        initial_state_def insert_entry_def handleGenerateQrCode_start_def same_url_again_def
        example_entry_def)
  from l r n d l2 r3 h show ?thesis by blast
qed

text \<open>
  C1, amended.  In every state the program reaches from a store that holds no list, a
  text that is no JSON, or the stored form of a list with at most 20 entries and
  pairwise different \<^verbatim>\<open>url\<close>s, the history has at most 20 entries and no two entries with
  the same \<^verbatim>\<open>url\<close>.  Every handler keeps this invariant of the history.  The loading of
  the page does not check the stored list: it sets the history to the stored list as it
  is, so a store is of the kind above exactly when its list has the invariant.
\<close>

theorem history_invariant_from_store:
  "(store_ok sto0 \<and> reachable URL_new sto0 p \<longrightarrow>
      (\<exists>s. p = Running s \<and> length (history (app s)) \<le> 20
         \<and> distinct (map url (history (app s)))))
   \<and> (history_ok (history st) \<longrightarrow>
        history_ok (history (handleGenerateQrCode URL_new toDataURL isoString now st))
        \<and> history_ok (history (handleGenerateQrCode_resume captured outcome isoString now st))
        \<and> history_ok (history (handleSelectHistoryItem item st))
        \<and> history_ok (history (handleClearHistory confirmed st)))
   \<and> (\<exists>s. page_load True w1 w2 (persist_effect True h sto) = Running s \<and> history (app s) = h)
   \<and> (store_ok (persist_effect True h sto) \<longleftrightarrow> history_ok h)"
proof -
  have a: "store_ok sto0 \<and> reachable URL_new sto0 p \<longrightarrow>
      (\<exists>s. p = Running s \<and> length (history (app s)) \<le> 20
         \<and> distinct (map url (history (app s))))"
    using reachable_ok [of sto0 URL_new p] by (auto simp add: history_ok_def)
  have b: "history_ok (history st) \<longrightarrow>
        history_ok (history (handleGenerateQrCode URL_new toDataURL isoString now st))
        \<and> history_ok (history (handleGenerateQrCode_resume captured outcome isoString now st))
        \<and> history_ok (history (handleSelectHistoryItem item st))
        \<and> history_ok (history (handleClearHistory confirmed st))"
    using handlers_keep_history_ok [of st] by blast
  have c: "\<exists>s. page_load True w1 w2 (persist_effect True h sto) = Running s
      \<and> history (app s) = h"
    by (simp add: page_load_stored apply_loaded_def)
  have d: "store_ok (persist_effect True h sto) \<longleftrightarrow> history_ok h"
    by (simp add: store_ok_def load_after_persist)
  from a b c d show ?thesis by blast
qed

lemma example_20_accepted:
  "\<not> input_rejected accept_all (url (example_entry 0))"
  "\<not> input_rejected accept_all (url (example_entry 2))"
  by (simp_all add: input_rejected_def isValidUrl_def accept_all_def example_entry_def
      trim_def is_white_def lit_def)

lemma generate_example_reachable:
  assumes "reachable accept_all sto0 (Running s)" "\<not> input_rejected accept_all typed"
  shows "reachable accept_all sto0 (Running (generate_example typed s))"
proof -
  have p: "typed \<in> set (pending (generate_click accept_all (type_input typed s)))"
    using assms(2) by (simp add: generate_click_def type_input_def handleGenerateQrCode_start_def)
  show ?thesis
    unfolding generate_example_def
    by (rule reachable.settle [OF reachable.click [OF reachable.typing [OF assms(1)]] p])
qed

lemma generate_example_history:
  "\<not> input_rejected accept_all typed \<Longrightarrow>
     history (app (generate_example typed s))
       = insert_entry \<lparr>id_entry = lit ''2024-01-01T00:00:00.000Z'', url = typed,
           dataUrl = lit ''data:image/png;base64,iVBORw0KGgo='', createdAt = 1704067200000\<rparr>
           (history (app s))"
  by (simp add: generate_example_def generate_settle_def handleGenerateQrCode_resume_def
      Let_def generate_click_def type_input_def handleGenerateQrCode_start_def)

theorem history_invariant_from_store_witness:
  "store_ok store_20
   \<and> reachable accept_all store_20 (Running example_run)
   \<and> length (history (app loaded_20)) = 20
   \<and> length (history (app example_run)) = 20
   \<and> map url (history (app example_run))
       = map (\<lambda>n. url (example_entry n))
           [0, 2, 1, 3, 4, 5, 6, 7, 8, 9, 10, 11, 12, 13, 14, 15, 16, 17, 18, 19]
   \<and> distinct (map url (history (app example_run)))"
proof -
  have ok: "store_ok store_20"
    by (simp add: store_ok_def store_20_def load_after_persist history_ok_def examples_21_def
        example_entry_def)
  have l: "page_load True True True store_20 = Running loaded_20"
    by (simp add: store_20_def loaded_20_def page_load_stored)
  have r0: "reachable accept_all store_20 (Running loaded_20)"
    using reachable.first_load [of accept_all store_20 True True True] l by simp
  have r: "reachable accept_all store_20 (Running example_run)"
    unfolding example_run_def
    by (intro generate_example_reachable r0 example_20_accepted)
  have n0: "length (history (app loaded_20)) = 20"
    by (simp add: loaded_20_def apply_loaded_def examples_21_def)
  have h2: "history (app example_run)
      = insert_entry \<lparr>id_entry = lit ''2024-01-01T00:00:00.000Z'', url = url (example_entry 0),
           dataUrl = lit ''data:image/png;base64,iVBORw0KGgo='', createdAt = 1704067200000\<rparr>
          (insert_entry \<lparr>id_entry = lit ''2024-01-01T00:00:00.000Z'',
             url = url (example_entry 2),
             dataUrl = lit ''data:image/png;base64,iVBORw0KGgo='', createdAt = 1704067200000\<rparr>
            (tl examples_21))"
    by (simp add: example_run_def generate_example_history example_20_accepted
        loaded_20_def apply_loaded_def)
  have h: "map url (history (app example_run))
      = map (\<lambda>n. url (example_entry n))
          [0, 2, 1, 3, 4, 5, 6, 7, 8, 9, 10, 11, 12, 13, 14, 15, 16, 17, 18, 19]"
    unfolding h2 by (simp add: insert_entry_def examples_21_def example_entry_def)
  have n: "length (history (app example_run)) = 20"
    using arg_cong [OF h, of length] by simp
  from history_invariant_from_store [where sto0 = store_20 and URL_new = accept_all
      and p = "Running example_run" and st = "app example_run" and toDataURL = encoder_ok
      and isoString = "[]" and now = 0 and captured = "[]" and outcome = None
      and item = "example_entry 0" and confirmed = True and h = "[]" and sto = Map.empty
      and ?w1.0 = True and ?w2.0 = True] ok r
  have "distinct (map url (history (app example_run)))" by simp
  with ok r n0 n h show ?thesis by blast
qed

end
